theory Spec2Isabelle
  imports Complex_Main "HOL-Library.Monad_Syntax"
begin

unbundle bit_operations_syntax

section \<open>World queries of the server (sv\_world.cpp)\<close>

text \<open>
  A shallow embedding of \<^verbatim>\<open>codemp/server/sv_world.cpp\<close>: the world-sector tree
  (\<^verbatim>\<open>SV_CreateworldSector\<close>, \<^verbatim>\<open>SV_ClearWorld\<close>), the entity links
  (\<^verbatim>\<open>SV_UnlinkEntity\<close>, \<^verbatim>\<open>SV_LinkEntity\<close>), the area query
  (\<^verbatim>\<open>SV_AreaEntities\<close>) and the move clipper (\<^verbatim>\<open>SV_ClipMoveToEntities\<close>,
  \<^verbatim>\<open>SV_Trace\<close>).

  Conventions of the model.
  \<^item> A C \<^verbatim>\<open>float\<close> is a \<open>real\<close>, one that the binary32 format represents.
    Comparisons are exact. The result of an addition, a subtraction or a multiplication is
    rounded to the nearest float, ties to even (\<open>f32\<close>), as the machine does when it
    evaluates \<^verbatim>\<open>float\<close> expressions in \<^verbatim>\<open>float\<close> (\<^verbatim>\<open>FLT_EVAL_METHOD\<close> 0). There is
    no NaN and no infinity: the model is that of the machine as long as every result is
    below \<open>2 ^ 128\<close> in magnitude.
  \<^item> A C \<^verbatim>\<open>int\<close> is an \<open>int\<close>; \<^verbatim>\<open>&\<close> is \<open>AND\<close> on \<open>int\<close>, which agrees with the
    32-bit operation on two's complement values.
  \<^item> A pointer into \<^verbatim>\<open>sv_worldSectors\<close> or \<^verbatim>\<open>sv.svEntities\<close> is an index, and
    \<^verbatim>\<open>NULL\<close> is \<open>None\<close>. A function that dereferences \<^verbatim>\<open>NULL\<close>, reads outside an
    array, or does not return, yields \<open>None\<close>.
  \<^item> The \<^verbatim>\<open>svEntity_t\<close> and the shared entity of the same number are one record, whose
    fields are named after the C path: \<open>r_absmin\<close> is \<^verbatim>\<open>gEnt->r->absmin\<close>, \<open>s_number\<close>
    is \<^verbatim>\<open>gEnt->s->number\<close>.
  \<^item> Constants of the engine headers and the collision-model functions (\<^verbatim>\<open>CM_*\<close>,
    \<^verbatim>\<open>G2API_*\<close>) are not part of this file of the repository: they are parameters,
    collected in the records \<open>engine_consts\<close> and \<open>oracles\<close>.
  \<^item> The PVS bookkeeping of \<^verbatim>\<open>SV_LinkEntity\<close> (areas and clusters of the leafs an
    entity touches) is left out, except for the number of leafs, which decides whether the
    entity is linked at all.
\<close>

subsection \<open>Floats\<close>

text \<open>The number of binary digits of a positive integer.\<close>

function bitlen_int :: "int \<Rightarrow> int" where
  "bitlen_int n = (if n \<le> 0 then 0 else 1 + bitlen_int (n div 2))"
  by pat_completeness auto
termination
  by (relation "measure nat") auto

declare bitlen_int.simps [simp del]

text \<open>
  The binary exponent of a positive real: \<open>2 ^ e \<le> x < 2 ^ (e + 1)\<close>. Below 1 it is
  read off the reciprocal.
\<close>

definition float_exponent :: "real \<Rightarrow> int" where
  "float_exponent x =
     (if 1 \<le> x then bitlen_int \<lfloor>x\<rfloor> - 1 else - bitlen_int (\<lceil>1 / x\<rceil> - 1))"

definition pow2 :: "int \<Rightarrow> real" where
  "pow2 n = (if 0 \<le> n then 2 ^ nat n else 1 / 2 ^ nat (- n))"

text \<open>The nearest integer, the even one of two that are equally near.\<close>

definition round_even :: "real \<Rightarrow> int" where
  "round_even x =
     (let n = \<lfloor>x\<rfloor>; r = x - of_int n
      in if r < 1 / 2 then n else if 1 / 2 < r then n + 1
         else if even n then n else n + 1)"

text \<open>
  The rounding of a real to binary32: 24 significant binary digits, and a spacing of
  \<open>2 ^ - 149\<close> below the least normal exponent -126.
\<close>

definition f32 :: "real \<Rightarrow> real" where
  "f32 x =
     (if x = 0 then 0
      else let q = pow2 (max (float_exponent \<bar>x\<bar>) (- 126) - 23)
           in of_int (round_even (x / q)) * q)"

subsection \<open>Vectors\<close>

datatype vec3 = Vec3 real real real

fun vnth :: "vec3 \<Rightarrow> nat \<Rightarrow> real" where
  "vnth (Vec3 x y z) i = (if i = 0 then x else if i = 1 then y else z)"

fun vset :: "vec3 \<Rightarrow> nat \<Rightarrow> real \<Rightarrow> vec3" where
  "vset (Vec3 x y z) i v =
     (if i = 0 then Vec3 v y z else if i = 1 then Vec3 x v z else Vec3 x y v)"

definition vec3_origin :: vec3 where
  "vec3_origin = Vec3 0 0 0"

definition VectorAdd :: "vec3 \<Rightarrow> vec3 \<Rightarrow> vec3" where
  "VectorAdd a b =
     Vec3 (f32 (vnth a 0 + vnth b 0)) (f32 (vnth a 1 + vnth b 1)) (f32 (vnth a 2 + vnth b 2))"

definition VectorSubtract :: "vec3 \<Rightarrow> vec3 \<Rightarrow> vec3" where
  "VectorSubtract a b =
     Vec3 (f32 (vnth a 0 - vnth b 0)) (f32 (vnth a 1 - vnth b 1)) (f32 (vnth a 2 - vnth b 2))"

subsection \<open>Data\<close>

text \<open>\<^verbatim>\<open>worldSector_t\<close>: \<open>axis = -1\<close> marks a leaf.\<close>

record worldSector_t =
  axis :: int
  dist :: real
  children0 :: "nat option"
  children1 :: "nat option"
  entities :: "nat option"

definition AREA_DEPTH :: nat where
  "AREA_DEPTH = 4"

definition AREA_NODES :: nat where
  "AREA_NODES = 64"

record entity =
  worldSector :: "nat option"
  nextEntityInWorldSector :: "nat option"
  ghoul2 :: bool
  r_linked :: bool
  r_linkcount :: int
  r_bmodel :: bool
  r_svFlags :: int
  r_contents :: int
  r_ownerNum :: int
  r_mins :: vec3
  r_maxs :: vec3
  r_absmin :: vec3
  r_absmax :: vec3
  r_currentOrigin :: vec3
  r_currentAngles :: vec3
  s_number :: int
  s_solid :: int
  s_eType :: int
  s_eFlags :: int
  s_modelindex :: int

record world =
  sv_worldSectors :: "worldSector_t list"
  sv_numworldSectors :: nat
  svEntities :: "entity list"

record trace_t =
  allsolid :: bool
  startsolid :: bool
  fraction :: real
  endpos :: vec3
  plane_normal :: vec3
  surfaceFlags :: int
  contents :: int
  entityNum :: int

record CollisionRecord_t =
  mEntityNum :: int
  mCollisionPosition :: vec3
  mCollisionNormal :: vec3
  mSurfaceIndex :: int

text \<open>What \<^verbatim>\<open>SV_ClipHandleForEntity\<close> asks the collision model for.\<close>

datatype clipHandle_t =
  CM_InlineModel int
  | CM_TempBoxModel vec3 vec3 bool

text \<open>The constants of the engine headers that the file uses.\<close>

record engine_consts =
  ENTITYNUM_NONE :: int
  ENTITYNUM_WORLD :: int
  MAX_GENTITIES :: int
  SOLID_BMODEL :: int
  CONTENTS_SOLID :: int
  CONTENTS_BODY :: int
  CONTENTS_LIGHTSABER :: int
  CONTENTS_NOSHOT :: int
  MASK_SHOT :: int
  SVF_CAPSULE :: int
  SVF_OWNERNOTSHARED :: int
  ET_MISSILE :: int
  EF_DEAD :: int
  G2TRFLAG_DOGHOULTRACE :: int
  G2TRFLAG_HITCORPSES :: int
  G2TRFLAG_THICK :: int
  G2TRFLAG_GETSURFINDEX :: int

text \<open>
  The external collaborators: the world bounds, the leafs a box touches, the bounding
  radius, the exact traces of the collision model and the Ghoul2 collision test. The
  Ghoul2 test gets the entity, the sweep, the level of detail and the radius; the angles
  and the choice of the cached call are computed from the entity alone.
\<close>

record oracles =
  CM_BoxLeafnums :: "vec3 \<Rightarrow> vec3 \<Rightarrow> nat"
  RadiusFromBounds :: "vec3 \<Rightarrow> vec3 \<Rightarrow> real"
  CM_BoxTrace :: "vec3 \<Rightarrow> vec3 \<Rightarrow> vec3 \<Rightarrow> vec3 \<Rightarrow> int \<Rightarrow> int \<Rightarrow> trace_t"
  CM_TransformedBoxTrace ::
    "vec3 \<Rightarrow> vec3 \<Rightarrow> vec3 \<Rightarrow> vec3 \<Rightarrow> clipHandle_t \<Rightarrow> int \<Rightarrow> vec3 \<Rightarrow> vec3 \<Rightarrow> int \<Rightarrow> trace_t"
  G2API_CollisionDetect ::
    "entity \<Rightarrow> vec3 \<Rightarrow> vec3 \<Rightarrow> int \<Rightarrow> real \<Rightarrow> CollisionRecord_t list"

subsection \<open>SV\_ClipHandleForEntity\<close>

definition SV_ClipHandleForEntity :: "engine_consts \<Rightarrow> entity \<Rightarrow> clipHandle_t" where
  "SV_ClipHandleForEntity K ent =
     (if r_bmodel ent then CM_InlineModel (s_modelindex ent)
      else if r_svFlags ent AND SVF_CAPSULE K \<noteq> 0
        then CM_TempBoxModel (r_mins ent) (r_maxs ent) True
      else CM_TempBoxModel (r_mins ent) (r_maxs ent) False)"

subsection \<open>SV\_CreateworldSector and SV\_ClearWorld\<close>

text \<open>
  The sectors are allocated from the array in the order of the calls. A call with no
  free sector left writes outside the array, and a call with \<open>depth > AREA_DEPTH\<close>
  never meets the base case: both are \<open>None\<close>. In
  \<^verbatim>\<open>0.5 * (maxs[anode->axis] + mins[anode->axis])\<close> the sum is a \<^verbatim>\<open>float\<close>, the product
  a \<^verbatim>\<open>double\<close>, which holds it exactly, and the assignment to \<^verbatim>\<open>dist\<close> rounds it.
\<close>

function SV_CreateworldSector ::
  "nat \<Rightarrow> vec3 \<Rightarrow> vec3 \<Rightarrow> worldSector_t list \<times> nat \<Rightarrow> (nat \<times> worldSector_t list \<times> nat) option"
where
  "SV_CreateworldSector depth mins maxs (secs, num) =
     (if \<not> num < length secs \<or> AREA_DEPTH < depth then None
      else if depth = AREA_DEPTH then
        Some (num, secs[num := (secs ! num)\<lparr>axis := - 1, children0 := None, children1 := None\<rparr>],
              num + 1)
      else
        let size = VectorSubtract maxs mins;
            a = (if vnth size 0 > vnth size 1 then 0 else 1);
            d = f32 (0.5 * f32 (vnth maxs a + vnth mins a));
            secs1 = secs[num := (secs ! num)\<lparr>axis := int a, dist := d\<rparr>];
            mins2 = vset mins a d;
            maxs1 = vset maxs a d
        in case SV_CreateworldSector (depth + 1) mins2 maxs (secs1, num + 1) of
             None \<Rightarrow> None
           | Some (c0, secs2, num2) \<Rightarrow>
               (case SV_CreateworldSector (depth + 1) mins maxs1
                       (secs2[num := (secs2 ! num)\<lparr>children0 := Some c0\<rparr>], num2) of
                  None \<Rightarrow> None
                | Some (c1, secs3, num3) \<Rightarrow>
                    Some (num, secs3[num := (secs3 ! num)\<lparr>children1 := Some c1\<rparr>], num3)))"
  by pat_completeness auto
termination
  by (relation "measure (\<lambda>(depth, mins, maxs, st). Suc AREA_DEPTH - depth)") auto

definition zero_sector :: worldSector_t where
  "zero_sector = \<lparr>axis = 0, dist = 0, children0 = None, children1 = None, entities = None\<rparr>"

text \<open>
  \<^verbatim>\<open>SV_ClearWorld\<close>: the bounds are those of the world model, \<^verbatim>\<open>CM_ModelBounds\<close> of
  inline model 0, here the arguments.
\<close>

definition SV_ClearWorld :: "vec3 \<Rightarrow> vec3 \<Rightarrow> world \<Rightarrow> world option" where
  "SV_ClearWorld mins maxs w =
     (case SV_CreateworldSector 0 mins maxs (replicate AREA_NODES zero_sector, 0) of
        None \<Rightarrow> None
      | Some (anode, secs, num) \<Rightarrow>
          Some (w\<lparr>sv_worldSectors := secs, sv_numworldSectors := num\<rparr>))"

subsection \<open>SV\_UnlinkEntity\<close>

text \<open>
  The scan of the member chain for the predecessor of \<open>ent\<close>. The result says whether
  the warning "not found in worldSector" was printed.
\<close>

partial_function (option) unlink_scan ::
  "entity list \<Rightarrow> nat \<Rightarrow> nat option \<Rightarrow> (entity list \<times> bool) option"
where
  "unlink_scan ents ent scan =
     (case scan of
        None \<Rightarrow> Some (ents, True)
      | Some sc \<Rightarrow>
          if \<not> sc < length ents then None
          else if nextEntityInWorldSector (ents ! sc) = Some ent then
            Some (ents[sc := (ents ! sc)
                    \<lparr>nextEntityInWorldSector := nextEntityInWorldSector (ents ! ent)\<rparr>], False)
          else unlink_scan ents ent (nextEntityInWorldSector (ents ! sc)))"

declare unlink_scan.simps [code]

definition SV_UnlinkEntity :: "nat \<Rightarrow> world \<Rightarrow> (world \<times> bool) option" where
  "SV_UnlinkEntity gEnt w =
     (if \<not> gEnt < length (svEntities w) then None
      else
        let ents1 = (svEntities w)[gEnt := (svEntities w ! gEnt)\<lparr>r_linked := False\<rparr>]
        in case worldSector (ents1 ! gEnt) of
             None \<Rightarrow> Some (w\<lparr>svEntities := ents1\<rparr>, False)
           | Some ws \<Rightarrow>
               if \<not> ws < length (sv_worldSectors w) then None
               else
                 let ents2 = ents1[gEnt := (ents1 ! gEnt)\<lparr>worldSector := None\<rparr>];
                     secs = sv_worldSectors w
                 in if entities (secs ! ws) = Some gEnt then
                      Some (w\<lparr>sv_worldSectors := secs[ws := (secs ! ws)
                                 \<lparr>entities := nextEntityInWorldSector (ents2 ! gEnt)\<rparr>],
                               svEntities := ents2\<rparr>, False)
                    else
                      (case unlink_scan ents2 gEnt (entities (secs ! ws)) of
                         None \<Rightarrow> None
                       | Some (ents3, warned) \<Rightarrow> Some (w\<lparr>svEntities := ents3\<rparr>, warned)))"

subsection \<open>SV\_LinkEntity\<close>

text \<open>
  The conversion of a \<^verbatim>\<open>float\<close> to an \<^verbatim>\<open>int\<close> truncates towards zero; it is undefined
  when the result does not fit. In \<^verbatim>\<open>gEnt->r->maxs[2]+32\<close> the sum is a \<^verbatim>\<open>float\<close>,
  rounded before the conversion.
\<close>

definition float_to_int :: "real \<Rightarrow> int option" where
  "float_to_int x =
     (let t = (if 0 \<le> x then \<lfloor>x\<rfloor> else \<lceil>x\<rceil>)
      in if - (2 ^ 31) \<le> t \<and> t < 2 ^ 31 then Some t else None)"

definition clamp_1_255 :: "int \<Rightarrow> int" where
  "clamp_1_255 i0 = (let i = (if i0 < 1 then 1 else i0) in if i > 255 then 255 else i)"

text \<open>The size encoded into \<^verbatim>\<open>gEnt->s->solid\<close> for the client prediction.\<close>

definition encode_solid :: "engine_consts \<Rightarrow> entity \<Rightarrow> int option" where
  "encode_solid K gEnt =
     (if r_bmodel gEnt then Some (SOLID_BMODEL K)
      else if r_contents gEnt AND (CONTENTS_SOLID K OR CONTENTS_BODY K) \<noteq> 0 then
        do {
          i0 \<leftarrow> float_to_int (vnth (r_maxs gEnt) 0);
          j0 \<leftarrow> float_to_int (- vnth (r_mins gEnt) 2);
          k0 \<leftarrow> float_to_int (f32 (vnth (r_maxs gEnt) 2 + 32));
          let i = clamp_1_255 i0; j = clamp_1_255 j0; k = clamp_1_255 k0;
              solid = push_bit 16 k OR push_bit 8 j OR i
          in Some (if solid = SOLID_BMODEL K then push_bit 16 k OR push_bit 8 j OR (i - 1)
                   else solid)
        }
      else Some 0)"

text \<open>The descent to the first sector that the box of the entity crosses.\<close>

partial_function (option) link_descend ::
  "worldSector_t list \<Rightarrow> vec3 \<Rightarrow> vec3 \<Rightarrow> nat \<Rightarrow> nat option"
where
  "link_descend secs absmin absmax node =
     (if \<not> node < length secs then None
      else if axis (secs ! node) = - 1 then Some node
      else if axis (secs ! node) < 0 \<or> 2 < axis (secs ! node) then None
      else if vnth absmin (nat (axis (secs ! node))) > dist (secs ! node) then
        (case children0 (secs ! node) of
           None \<Rightarrow> None
         | Some c \<Rightarrow> link_descend secs absmin absmax c)
      else if vnth absmax (nat (axis (secs ! node))) < dist (secs ! node) then
        (case children1 (secs ! node) of
           None \<Rightarrow> None
         | Some c \<Rightarrow> link_descend secs absmin absmax c)
      else Some node)"

declare link_descend.simps [code]

definition set_abs_box :: "oracles \<Rightarrow> entity \<Rightarrow> entity" where
  "set_abs_box X gEnt =
     (let origin = r_currentOrigin gEnt; angles = r_currentAngles gEnt;
          g1 = (if r_bmodel gEnt \<and> (vnth angles 0 \<noteq> 0 \<or> vnth angles 1 \<noteq> 0 \<or> vnth angles 2 \<noteq> 0)
                then
                  let max = RadiusFromBounds X (r_mins gEnt) (r_maxs gEnt)
                  in gEnt\<lparr>r_absmin := Vec3 (f32 (vnth origin 0 - max)) (f32 (vnth origin 1 - max))
                                          (f32 (vnth origin 2 - max)),
                          r_absmax := Vec3 (f32 (vnth origin 0 + max)) (f32 (vnth origin 1 + max))
                                          (f32 (vnth origin 2 + max))\<rparr>
                else gEnt\<lparr>r_absmin := VectorAdd origin (r_mins gEnt),
                          r_absmax := VectorAdd origin (r_maxs gEnt)\<rparr>)
      in g1\<lparr>r_absmin := Vec3 (f32 (vnth (r_absmin g1) 0 - 1)) (f32 (vnth (r_absmin g1) 1 - 1))
                              (f32 (vnth (r_absmin g1) 2 - 1)),
            r_absmax := Vec3 (f32 (vnth (r_absmax g1) 0 + 1)) (f32 (vnth (r_absmax g1) 1 + 1))
                              (f32 (vnth (r_absmax g1) 2 + 1))\<rparr>)"

definition SV_LinkEntity :: "engine_consts \<Rightarrow> oracles \<Rightarrow> nat \<Rightarrow> world \<Rightarrow> world option" where
  "SV_LinkEntity K X gEnt w =
     (if \<not> gEnt < length (svEntities w) then None
      else do {
        (w1, warned) \<leftarrow>
          (if worldSector (svEntities w ! gEnt) \<noteq> None then SV_UnlinkEntity gEnt w
           else Some (w, False));
        solid \<leftarrow> encode_solid K (svEntities w1 ! gEnt);
        let e2 = set_abs_box X ((svEntities w1 ! gEnt)\<lparr>s_solid := solid\<rparr>);
            w2 = w1\<lparr>svEntities := (svEntities w1)[gEnt := e2]\<rparr>
        in if CM_BoxLeafnums X (r_absmin e2) (r_absmax e2) = 0 then Some w2
           else do {
             node \<leftarrow> link_descend (sv_worldSectors w2) (r_absmin e2) (r_absmax e2) 0;
             let e3 = e2\<lparr>r_linkcount := r_linkcount e2 + 1,
                         worldSector := Some node,
                         nextEntityInWorldSector := entities (sv_worldSectors w2 ! node),
                         r_linked := True\<rparr>
             in Some (w2\<lparr>sv_worldSectors := (sv_worldSectors w2)
                            [node := (sv_worldSectors w2 ! node)\<lparr>entities := Some gEnt\<rparr>],
                         svEntities := (svEntities w2)[gEnt := e3]\<rparr>)
           }
      })"

subsection \<open>SV\_AreaEntities\<close>

text \<open>
  \<open>ap_list\<close> holds the entries of \<^verbatim>\<open>ap->list\<close> written so far, in the order of
  writing: \<^verbatim>\<open>ap->list[ap->count] = ...\<close> appends.
\<close>

record areaParms_t =
  ap_mins :: vec3
  ap_maxs :: vec3
  ap_list :: "nat list"
  ap_count :: int
  maxcount :: int

text \<open>
  The loop over the members of one sector. The result says whether the function
  returned from inside the loop (MAXCOUNT).
\<close>

partial_function (option) area_scan ::
  "entity list \<Rightarrow> nat option \<Rightarrow> areaParms_t \<Rightarrow> (areaParms_t \<times> bool) option"
where
  "area_scan ents check ap =
     (case check of
        None \<Rightarrow> Some (ap, False)
      | Some c \<Rightarrow>
          if \<not> c < length ents then None
          else
            let next = nextEntityInWorldSector (ents ! c); gcheck = ents ! c
            in if vnth (r_absmin gcheck) 0 > vnth (ap_maxs ap) 0
                  \<or> vnth (r_absmin gcheck) 1 > vnth (ap_maxs ap) 1
                  \<or> vnth (r_absmin gcheck) 2 > vnth (ap_maxs ap) 2
                  \<or> vnth (r_absmax gcheck) 0 < vnth (ap_mins ap) 0
                  \<or> vnth (r_absmax gcheck) 1 < vnth (ap_mins ap) 1
                  \<or> vnth (r_absmax gcheck) 2 < vnth (ap_mins ap) 2
               then area_scan ents next ap
               else if ap_count ap = maxcount ap then Some (ap, True)
               else area_scan ents next
                      (ap\<lparr>ap_list := ap_list ap @ [c], ap_count := ap_count ap + 1\<rparr>))"

declare area_scan.simps [code]

partial_function (option) SV_AreaEntities_r ::
  "world \<Rightarrow> nat \<Rightarrow> areaParms_t \<Rightarrow> areaParms_t option"
where
  "SV_AreaEntities_r w node ap =
     (if \<not> node < length (sv_worldSectors w) then None
      else
        case area_scan (svEntities w) (entities (sv_worldSectors w ! node)) ap of
          None \<Rightarrow> None
        | Some (ap1, returned) \<Rightarrow>
            if returned then Some ap1
            else if axis (sv_worldSectors w ! node) = - 1 then Some ap1
            else if axis (sv_worldSectors w ! node) < 0 \<or> 2 < axis (sv_worldSectors w ! node)
              then None
            else do {
              ap2 \<leftarrow>
                (if vnth (ap_maxs ap1) (nat (axis (sv_worldSectors w ! node)))
                      > dist (sv_worldSectors w ! node)
                 then (case children0 (sv_worldSectors w ! node) of
                         None \<Rightarrow> None
                       | Some c \<Rightarrow> SV_AreaEntities_r w c ap1)
                 else Some ap1);
              if vnth (ap_mins ap2) (nat (axis (sv_worldSectors w ! node)))
                   < dist (sv_worldSectors w ! node)
              then (case children1 (sv_worldSectors w ! node) of
                      None \<Rightarrow> None
                    | Some c \<Rightarrow> SV_AreaEntities_r w c ap2)
              else Some ap2
            })"

declare SV_AreaEntities_r.simps [code]

definition SV_AreaEntities :: "world \<Rightarrow> vec3 \<Rightarrow> vec3 \<Rightarrow> int \<Rightarrow> areaParms_t option" where
  "SV_AreaEntities w mins maxs maxcount' =
     SV_AreaEntities_r w 0
       \<lparr>ap_mins = mins, ap_maxs = maxs, ap_list = [], ap_count = 0, maxcount = maxcount'\<rparr>"

subsection \<open>SV\_ClipMoveToEntities\<close>

record moveclip_t =
  boxmins :: vec3
  boxmaxs :: vec3
  clip_mins :: vec3
  clip_maxs :: vec3
  clip_start :: vec3
  clip_end :: vec3
  passEntityNum :: int
  contentmask :: int
  capsule :: int
  traceFlags :: int
  useLod :: int
  trace :: trace_t

text \<open>\<^verbatim>\<open>SV_GentityMapperNum\<close>: the entity of a number, if there is one.\<close>

definition SV_GentityMapperNum :: "entity list \<Rightarrow> int \<Rightarrow> entity option" where
  "SV_GentityMapperNum ents n =
     (if 0 \<le> n \<and> n < int (length ents) then Some (ents ! nat n) else None)"

text \<open>
  The owner of the pass entity and whether the pass entity shares its owner
  (\<^verbatim>\<open>passOwnerNum\<close> and \<^verbatim>\<open>thisOwnerShared\<close>).
\<close>

definition pass_owner :: "engine_consts \<Rightarrow> entity list \<Rightarrow> int \<Rightarrow> int \<times> bool" where
  "pass_owner K ents passNum =
     (case SV_GentityMapperNum ents passNum of
        None \<Rightarrow> (- 1, True)
      | Some passEnt \<Rightarrow>
          (if passNum \<noteq> ENTITYNUM_NONE K \<and> r_ownerNum passEnt \<noteq> ENTITYNUM_NONE K
           then r_ownerNum passEnt else - 1,
           r_svFlags passEnt AND SVF_OWNERNOTSHARED K = 0))"

text \<open>
  "See if we should ignore this entity": the tests on the pass entity and on the owners.
  \<open>idx\<close> is \<^verbatim>\<open>touchlist[i]\<close>.
\<close>

definition ignore_entity ::
  "engine_consts \<Rightarrow> moveclip_t \<Rightarrow> int \<Rightarrow> bool \<Rightarrow> nat \<Rightarrow> entity \<Rightarrow> bool"
where
  "ignore_entity K clip passOwnerNum thisOwnerShared idx touch =
     (if passEntityNum clip \<noteq> ENTITYNUM_NONE K then
        if int idx = passEntityNum clip then True
        else if r_ownerNum touch = passEntityNum clip \<and>
                (if r_svFlags touch AND SVF_OWNERNOTSHARED K \<noteq> 0
                 then contentmask clip \<noteq> (MASK_SHOT K OR CONTENTS_LIGHTSABER K) \<and>
                      contentmask clip \<noteq> MASK_SHOT K
                 else True)
          then True
        else if r_ownerNum touch = passOwnerNum \<and>
                r_svFlags touch AND SVF_OWNERNOTSHARED K = 0 \<and> thisOwnerShared
          then True
        else if s_eType touch = ET_MISSILE K \<and>
                r_svFlags touch AND SVF_OWNERNOTSHARED K = 0 \<and>
                r_ownerNum touch = passOwnerNum
          then True
        else False
      else False)"

text \<open>
  A candidate is skipped, and never handed to the exact clip, when it is ignored, when
  it has no contents of the mask, or when a shot meets contents marked as not to be shot.
\<close>

definition skip_entity ::
  "engine_consts \<Rightarrow> moveclip_t \<Rightarrow> int \<Rightarrow> bool \<Rightarrow> nat \<Rightarrow> entity \<Rightarrow> bool"
where
  "skip_entity K clip passOwnerNum thisOwnerShared idx touch =
     (if ignore_entity K clip passOwnerNum thisOwnerShared idx touch then True
      else if contentmask clip AND r_contents touch = 0 then True
      else if (contentmask clip = (MASK_SHOT K OR CONTENTS_LIGHTSABER K) \<or>
               contentmask clip = MASK_SHOT K) \<and>
              (r_contents touch > 0 \<and> r_contents touch AND CONTENTS_NOSHOT K \<noteq> 0)
        then True
      else False)"

text \<open>
  The aggregation of one exact trace \<open>tr\<close> of the entity numbered \<open>num\<close> into the
  trace of the clip \<open>ct\<close>. The result is the new \<^verbatim>\<open>clip->trace\<close> and the local
  \<^verbatim>\<open>trace\<close>, whose \<^verbatim>\<open>entityNum\<close> the Ghoul2 test reads.
\<close>

definition clip_aggregate :: "trace_t \<Rightarrow> trace_t \<Rightarrow> int \<Rightarrow> trace_t \<times> trace_t" where
  "clip_aggregate ct tr num =
     (let (ct1, tr1) =
            (if allsolid tr then (ct\<lparr>allsolid := True\<rparr>, tr\<lparr>entityNum := num\<rparr>)
             else if startsolid tr then
               (ct\<lparr>startsolid := True, entityNum := num\<rparr>, tr\<lparr>entityNum := num\<rparr>)
             else (ct, tr))
      in if fraction tr1 < fraction ct1 then
           let oldStart = startsolid ct1;
               tr2 = tr1\<lparr>entityNum := num\<rparr>
           in (tr2\<lparr>startsolid := (startsolid tr2 \<or> oldStart)\<rparr>, tr2)
         else (ct1, tr1))"

text \<open>The first record of the entity in \<^verbatim>\<open>G2Trace\<close>, before any record numbered -1.\<close>

fun g2_best :: "int \<Rightarrow> CollisionRecord_t list \<Rightarrow> CollisionRecord_t option" where
  "g2_best num [] = None"
| "g2_best num (g # gs) =
     (if mEntityNum g = num then Some g
      else if mEntityNum g = - 1 then None
      else g2_best num gs)"

definition g2_radius :: "engine_consts \<Rightarrow> moveclip_t \<Rightarrow> real" where
  "g2_radius K clip =
     (let fRadius = (if vnth (clip_mins clip) 0 \<noteq> 0 \<or> vnth (clip_maxs clip) 0 \<noteq> 0
                     then f32 (f32 (vnth (clip_maxs clip) 0 - vnth (clip_mins clip) 0) / 2)
                     else 0)
      in if traceFlags clip AND G2TRFLAG_THICK K \<noteq> 0 then (if fRadius < 1 then 1 else fRadius)
         else fRadius)"

text \<open>
  The Ghoul2 test of a candidate: \<open>ct\<close> is \<^verbatim>\<open>clip->trace\<close> after the aggregation,
  \<open>oldTrace\<close> the one before it, \<open>tr\<close> the local trace.
\<close>

definition g2_refine ::
  "engine_consts \<Rightarrow> oracles \<Rightarrow> moveclip_t \<Rightarrow> trace_t \<Rightarrow> trace_t \<Rightarrow> trace_t \<Rightarrow> entity \<Rightarrow> trace_t"
where
  "g2_refine K X clip ct oldTrace tr touch =
     (if traceFlags clip AND G2TRFLAG_DOGHOULTRACE K \<noteq> 0 \<and> entityNum tr = s_number touch \<and>
         ghoul2 touch \<and>
         (traceFlags clip AND G2TRFLAG_HITCORPSES K \<noteq> 0 \<or> s_eFlags touch AND EF_DEAD K = 0)
      then
        case g2_best (s_number touch)
               (G2API_CollisionDetect X touch (clip_start clip) (clip_end clip) (useLod clip)
                  (g2_radius K clip)) of
          None \<Rightarrow> oldTrace
        | Some g \<Rightarrow>
            ct\<lparr>endpos := mCollisionPosition g, plane_normal := mCollisionNormal g,
               surfaceFlags :=
                 (if traceFlags clip AND G2TRFLAG_GETSURFINDEX K \<noteq> 0 \<and>
                     entityNum ct = mEntityNum g
                  then mSurfaceIndex g else surfaceFlags ct)\<rparr>
      else ct)"

text \<open>The exact clip of one candidate and what it does to \<^verbatim>\<open>clip->trace\<close>.\<close>

definition exact_trace :: "engine_consts \<Rightarrow> oracles \<Rightarrow> moveclip_t \<Rightarrow> entity \<Rightarrow> trace_t" where
  "exact_trace K X clip touch =
     CM_TransformedBoxTrace X (clip_start clip) (clip_end clip) (clip_mins clip) (clip_maxs clip)
       (SV_ClipHandleForEntity K touch) (contentmask clip) (r_currentOrigin touch)
       (if r_bmodel touch then r_currentAngles touch else vec3_origin) (capsule clip)"

definition clip_candidate :: "engine_consts \<Rightarrow> oracles \<Rightarrow> moveclip_t \<Rightarrow> entity \<Rightarrow> moveclip_t" where
  "clip_candidate K X clip touch =
     (let oldTrace = trace clip;
          (ct, tr) = clip_aggregate (trace clip) (exact_trace K X clip touch) (s_number touch)
      in clip\<lparr>trace := g2_refine K X clip ct oldTrace tr touch\<rparr>)"

text \<open>
  The loop over \<^verbatim>\<open>touchlist\<close>. The second component of the state is a ghost list:
  the candidates handed to the exact clip, in order. The entries of \<^verbatim>\<open>touchlist\<close> are
  written by \<open>area_scan\<close>, which only writes indices inside \<open>ents\<close>.
\<close>

fun clip_loop ::
  "engine_consts \<Rightarrow> oracles \<Rightarrow> entity list \<Rightarrow> int \<Rightarrow> bool \<Rightarrow> nat list \<Rightarrow>
   moveclip_t \<times> nat list \<Rightarrow> moveclip_t \<times> nat list"
where
  "clip_loop K X ents passOwnerNum thisOwnerShared [] st = st"
| "clip_loop K X ents passOwnerNum thisOwnerShared (t # ts) (clip, tested) =
     (if allsolid (trace clip) then (clip, tested)
      else if skip_entity K clip passOwnerNum thisOwnerShared t (ents ! t) then
        clip_loop K X ents passOwnerNum thisOwnerShared ts (clip, tested)
      else
        clip_loop K X ents passOwnerNum thisOwnerShared ts
          (clip_candidate K X clip (ents ! t), tested @ [t]))"

definition SV_ClipMoveToEntities ::
  "engine_consts \<Rightarrow> oracles \<Rightarrow> world \<Rightarrow> moveclip_t \<Rightarrow> (moveclip_t \<times> nat list) option"
where
  "SV_ClipMoveToEntities K X w clip =
     (case SV_AreaEntities w (boxmins clip) (boxmaxs clip) (MAX_GENTITIES K) of
        None \<Rightarrow> None
      | Some ap \<Rightarrow>
          let (passOwnerNum, thisOwnerShared) = pass_owner K (svEntities w) (passEntityNum clip)
          in Some (clip_loop K X (svEntities w) passOwnerNum thisOwnerShared (ap_list ap)
                     (clip, [])))"

subsection \<open>SV\_Trace\<close>

text \<open>The bounding box of the entire move, one coordinate.\<close>

definition move_boxmin :: "vec3 \<Rightarrow> vec3 \<Rightarrow> vec3 \<Rightarrow> nat \<Rightarrow> real" where
  "move_boxmin start end' mins i =
     (if vnth end' i > vnth start i then f32 (f32 (vnth start i + vnth mins i) - 1)
      else f32 (f32 (vnth end' i + vnth mins i) - 1))"

definition move_boxmax :: "vec3 \<Rightarrow> vec3 \<Rightarrow> vec3 \<Rightarrow> nat \<Rightarrow> real" where
  "move_boxmax start end' maxs i =
     (if vnth end' i > vnth start i then f32 (f32 (vnth end' i + vnth maxs i) + 1)
      else f32 (f32 (vnth start i + vnth maxs i) + 1))"

definition zero_trace :: trace_t where
  "zero_trace = \<lparr>allsolid = False, startsolid = False, fraction = 0, endpos = vec3_origin,
     plane_normal = vec3_origin, surfaceFlags = 0, contents = 0, entityNum = 0\<rparr>"

text \<open>
  \<^verbatim>\<open>SV_Trace\<close>: \<open>mins\<close> and \<open>maxs\<close> are pointers that may be \<^verbatim>\<open>NULL\<close>. The result
  is \<^verbatim>\<open>*results\<close> and the ghost list of the candidates handed to the exact clip.
\<close>

definition SV_Trace ::
  "engine_consts \<Rightarrow> oracles \<Rightarrow> world \<Rightarrow> vec3 \<Rightarrow> vec3 option \<Rightarrow> vec3 option \<Rightarrow> vec3 \<Rightarrow>
   int \<Rightarrow> int \<Rightarrow> int \<Rightarrow> int \<Rightarrow> int \<Rightarrow> (trace_t \<times> nat list) option"
where
  "SV_Trace K X w start mins maxs end' passEntityNum' contentmask' capsule' traceFlags' useLod' =
     (let mins1 = (case mins of None \<Rightarrow> vec3_origin | Some m \<Rightarrow> m);
          maxs1 = (case maxs of None \<Rightarrow> vec3_origin | Some m \<Rightarrow> m);
          t0 = CM_BoxTrace X start end' mins1 maxs1 contentmask' capsule';
          t1 = t0\<lparr>entityNum := (if fraction t0 \<noteq> 1 then ENTITYNUM_WORLD K
                                  else ENTITYNUM_NONE K)\<rparr>
      in if fraction t1 = 0 then Some (t1, [])
         else
           let clip = \<lparr>boxmins = Vec3 (move_boxmin start end' mins1 0)
                                      (move_boxmin start end' mins1 1)
                                      (move_boxmin start end' mins1 2),
                       boxmaxs = Vec3 (move_boxmax start end' maxs1 0)
                                      (move_boxmax start end' maxs1 1)
                                      (move_boxmax start end' maxs1 2),
                       clip_mins = mins1, clip_maxs = maxs1,
                       clip_start = start, clip_end = end',
                       passEntityNum = passEntityNum', contentmask = contentmask',
                       capsule = capsule', traceFlags = traceFlags', useLod = useLod',
                       trace = t1\<rparr>
           in case SV_ClipMoveToEntities K X w clip of
                None \<Rightarrow> None
              | Some (clip1, tested) \<Rightarrow> Some (trace clip1, tested))"

subsection \<open>The tree that the construction is to produce\<close>

text \<open>
  \<open>is_sector_tree k secs mins maxs n\<close>: the sector \<open>n\<close> of the array is the root of a
  tree of height \<open>k\<close> for the box from \<open>mins\<close> to \<open>maxs\<close>. A root of height 0 is a leaf,
  with axis -1 and no children. A root of height \<open>k + 1\<close> splits the longer of the first
  two extents of its box at the midpoint, extents and midpoint as the \<^verbatim>\<open>float\<close>
  arithmetic gives them; its first child is the next sector of the array
  and gets the upper half of the box, and its second child follows the \<open>2 ^ (k + 1) - 1\<close>
  sectors of the first and gets the lower half. \<open>sector_nodes\<close> lists the sectors
  reached from a root through the child pointers, down to the given height.
\<close>

fun is_sector_tree :: "nat \<Rightarrow> worldSector_t list \<Rightarrow> vec3 \<Rightarrow> vec3 \<Rightarrow> nat \<Rightarrow> bool" where
  "is_sector_tree 0 secs mins maxs n =
     (n < length secs \<and> axis (secs ! n) = - 1 \<and>
      children0 (secs ! n) = None \<and> children1 (secs ! n) = None)"
| "is_sector_tree (Suc k) secs mins maxs n =
     (let a = (if f32 (vnth maxs 0 - vnth mins 0) > f32 (vnth maxs 1 - vnth mins 1)
                    then 0 else 1);
          d = f32 (0.5 * f32 (vnth maxs a + vnth mins a))
      in n < length secs \<and> axis (secs ! n) = int a \<and> dist (secs ! n) = d \<and>
         children0 (secs ! n) = Some (n + 1) \<and>
         children1 (secs ! n) = Some (n + 2 ^ Suc k) \<and>
         is_sector_tree k secs (vset mins a d) maxs (n + 1) \<and>
         is_sector_tree k secs mins (vset maxs a d) (n + 2 ^ Suc k))"

fun sector_nodes :: "nat \<Rightarrow> worldSector_t list \<Rightarrow> nat \<Rightarrow> nat list" where
  "sector_nodes 0 secs n = [n]"
| "sector_nodes (Suc k) secs n =
     n # (case children0 (secs ! n) of None \<Rightarrow> [] | Some c \<Rightarrow> sector_nodes k secs c)
       @ (case children1 (secs ! n) of None \<Rightarrow> [] | Some c \<Rightarrow> sector_nodes k secs c)"

text \<open>
  \<open>sector_layout\<close> is the part of \<open>is_sector_tree\<close> that does not depend on the
  numbers: the leaves, the children and their places in the array, and a split axis that
  is the first or the second.
\<close>

fun sector_layout :: "nat \<Rightarrow> worldSector_t list \<Rightarrow> nat \<Rightarrow> bool" where
  "sector_layout 0 secs n =
     (n < length secs \<and> axis (secs ! n) = - 1 \<and>
      children0 (secs ! n) = None \<and> children1 (secs ! n) = None)"
| "sector_layout (Suc k) secs n =
     (n < length secs \<and> (axis (secs ! n) = 0 \<or> axis (secs ! n) = 1) \<and>
      children0 (secs ! n) = Some (n + 1) \<and>
      children1 (secs ! n) = Some (n + 2 ^ Suc k) \<and>
      sector_layout k secs (n + 1) \<and>
      sector_layout k secs (n + 2 ^ Suc k))"

text \<open>
  A world box whose first two coordinates are at most \<open>2 ^ 126\<close> in magnitude: no
  extent and no sum of two coordinates reaches \<open>2 ^ 128\<close>, in the box and in the boxes
  that the splits make of it, so the machine computes no infinity. The third coordinate
  is never split and its extent is never read.
\<close>

definition box_in_range :: "vec3 \<Rightarrow> vec3 \<Rightarrow> bool" where
  "box_in_range mins maxs \<longleftrightarrow>
     \<bar>vnth mins 0\<bar> \<le> 2 ^ 126 \<and> \<bar>vnth maxs 0\<bar> \<le> 2 ^ 126 \<and>
     \<bar>vnth mins 1\<bar> \<le> 2 ^ 126 \<and> \<bar>vnth maxs 1\<bar> \<le> 2 ^ 126"

subsection \<open>Linked worlds\<close>

text \<open>
  \<open>chain ents p xs\<close>: the member chain that starts at the pointer \<open>p\<close> and follows
  \<^verbatim>\<open>nextEntityInWorldSector\<close> visits the entities \<open>xs\<close>, in this order, and ends in
  \<^verbatim>\<open>NULL\<close>.
\<close>

primrec chain :: "entity list \<Rightarrow> nat option \<Rightarrow> nat list \<Rightarrow> bool" where
  "chain ents p [] = (p = None)"
| "chain ents p (x # xs) =
     (p = Some x \<and> x < length ents \<and> chain ents (nextEntityInWorldSector (ents ! x)) xs)"

text \<open>
  \<open>sector_shape k secs n\<close>: the sector \<open>n\<close> is the root of a tree of height \<open>k\<close> laid
  out as \<^verbatim>\<open>SV_CreateworldSector\<close> lays it out, with any split planes.
\<close>

fun sector_shape :: "nat \<Rightarrow> worldSector_t list \<Rightarrow> nat \<Rightarrow> bool" where
  "sector_shape 0 secs n = (n < length secs \<and> axis (secs ! n) = - 1)"
| "sector_shape (Suc k) secs n =
     (n < length secs \<and> (axis (secs ! n) = 0 \<or> axis (secs ! n) = 1) \<and>
      children0 (secs ! n) = Some (n + 1) \<and>
      children1 (secs ! n) = Some (n + 2 ^ Suc k) \<and>
      sector_shape k secs (n + 1) \<and>
      sector_shape k secs (n + 2 ^ Suc k))"

text \<open>
  The invariant of the worlds that \<^verbatim>\<open>SV_ClearWorld\<close>, \<^verbatim>\<open>SV_LinkEntity\<close> and
  \<^verbatim>\<open>SV_UnlinkEntity\<close> produce. The sectors are a tree as built. The member chain of
  each sector of the tree holds the entities whose \<^verbatim>\<open>worldSector\<close> is that sector, each
  once. Each such entity is in the sector that the descent of \<^verbatim>\<open>SV_LinkEntity\<close> finds
  for its \<^verbatim>\<open>absmin\<close> and \<^verbatim>\<open>absmax\<close>.
\<close>

definition world_inv :: "world \<Rightarrow> bool" where
  "world_inv w \<longleftrightarrow>
     sector_shape AREA_DEPTH (sv_worldSectors w) 0 \<and>
     (\<forall>n < 2 ^ Suc AREA_DEPTH - 1.
        \<exists>xs. chain (svEntities w) (entities (sv_worldSectors w ! n)) xs \<and> distinct xs \<and>
             set xs = {e. e < length (svEntities w) \<and> worldSector (svEntities w ! e) = Some n}) \<and>
     (\<forall>e < length (svEntities w). \<forall>n. worldSector (svEntities w ! e) = Some n \<longrightarrow>
        n < 2 ^ Suc AREA_DEPTH - 1 \<and>
        link_descend (sv_worldSectors w) (r_absmin (svEntities w ! e))
          (r_absmax (svEntities w ! e)) 0 = Some n)"

text \<open>
  The worlds that the code builds. \<^verbatim>\<open>SV_ClearWorld\<close> runs when no entity is linked.
  Then come \<^verbatim>\<open>SV_LinkEntity\<close> and \<^verbatim>\<open>SV_UnlinkEntity\<close>, in any order, and between two
  calls the game may change an entity in every field that does not belong to the links:
  \<^verbatim>\<open>worldSector\<close> and \<^verbatim>\<open>nextEntityInWorldSector\<close> are the server's own, and
  \<^verbatim>\<open>absmin\<close> and \<^verbatim>\<open>absmax\<close> are derived by \<^verbatim>\<open>SV_LinkEntity\<close> from the origin and
  the bounds of the entity.
\<close>

inductive linked_world :: "engine_consts \<Rightarrow> oracles \<Rightarrow> world \<Rightarrow> bool"
  for K :: engine_consts and X :: oracles
where
  cleared:
    "(\<And>e. e < length (svEntities w) \<Longrightarrow> worldSector (svEntities w ! e) = None) \<Longrightarrow>
     SV_ClearWorld mins maxs w = Some w' \<Longrightarrow> linked_world K X w'"
| linked:
    "linked_world K X w \<Longrightarrow> SV_LinkEntity K X e w = Some w' \<Longrightarrow> linked_world K X w'"
| unlinked:
    "linked_world K X w \<Longrightarrow> SV_UnlinkEntity e w = Some (w', warned) \<Longrightarrow> linked_world K X w'"
| changed:
    "linked_world K X w \<Longrightarrow> e < length (svEntities w) \<Longrightarrow>
     worldSector e' = worldSector (svEntities w ! e) \<Longrightarrow>
     nextEntityInWorldSector e' = nextEntityInWorldSector (svEntities w ! e) \<Longrightarrow>
     (worldSector (svEntities w ! e) \<noteq> None \<Longrightarrow>
        r_absmin e' = r_absmin (svEntities w ! e) \<and> r_absmax e' = r_absmax (svEntities w ! e)) \<Longrightarrow>
     linked_world K X (w\<lparr>svEntities := (svEntities w)[e := e']\<rparr>)"

text \<open>
  The absolute bounds of an entity meet the closed box from \<open>mins\<close> to \<open>maxs\<close> on all
  three axes.
\<close>

definition overlaps :: "entity \<Rightarrow> vec3 \<Rightarrow> vec3 \<Rightarrow> bool" where
  "overlaps e mins maxs \<longleftrightarrow>
     vnth (r_absmin e) 0 \<le> vnth maxs 0 \<and> vnth mins 0 \<le> vnth (r_absmax e) 0 \<and>
     vnth (r_absmin e) 1 \<le> vnth maxs 1 \<and> vnth mins 1 \<le> vnth (r_absmax e) 1 \<and>
     vnth (r_absmin e) 2 \<le> vnth maxs 2 \<and> vnth mins 2 \<le> vnth (r_absmax e) 2"

text \<open>The entities that are linked into some sector and whose bounds meet the box.\<close>

definition linked_overlapping :: "world \<Rightarrow> vec3 \<Rightarrow> vec3 \<Rightarrow> nat set" where
  "linked_overlapping w mins maxs =
     {e. e < length (svEntities w) \<and> worldSector (svEntities w ! e) \<noteq> None \<and>
         overlaps (svEntities w ! e) mins maxs}"

text \<open>
  Two functions for the proofs about the area query. \<open>cap_app ap cs\<close> writes the
  entities \<open>cs\<close> to the list of \<open>ap\<close> until the count is \<open>maxcount\<close>. \<open>visited\<close> lists
  the sectors of a tree that the query for a box walks through, in its order.
\<close>

fun cap_app :: "areaParms_t \<Rightarrow> nat list \<Rightarrow> areaParms_t" where
  "cap_app ap [] = ap"
| "cap_app ap (c # cs) =
     (if ap_count ap = maxcount ap then ap
      else cap_app (ap\<lparr>ap_list := ap_list ap @ [c], ap_count := ap_count ap + 1\<rparr>) cs)"

fun visited :: "nat \<Rightarrow> worldSector_t list \<Rightarrow> vec3 \<Rightarrow> vec3 \<Rightarrow> nat \<Rightarrow> nat list" where
  "visited 0 secs mins maxs n = [n]"
| "visited (Suc k) secs mins maxs n =
     n # (if vnth maxs (nat (axis (secs ! n))) > dist (secs ! n)
          then visited k secs mins maxs (n + 1) else [])
       @ (if vnth mins (nat (axis (secs ! n))) < dist (secs ! n)
          then visited k secs mins maxs (n + 2 ^ Suc k) else [])"

subsection \<open>The Ghoul2 test of a candidate\<close>

text \<open>
  Two names for the statements about the candidates. \<open>g2_wanted\<close>: the sweep asks for
  the Ghoul2 test, the candidate has a Ghoul2 model, and it is not dead or the sweep hits
  corpses; the test is then made when the local trace carries the number of the candidate.
  \<open>g2_collision\<close>: the record of the candidate that the test finds, if any.
\<close>

definition g2_wanted :: "engine_consts \<Rightarrow> moveclip_t \<Rightarrow> entity \<Rightarrow> bool" where
  "g2_wanted K clip touch \<longleftrightarrow>
     traceFlags clip AND G2TRFLAG_DOGHOULTRACE K \<noteq> 0 \<and> ghoul2 touch \<and>
     (traceFlags clip AND G2TRFLAG_HITCORPSES K \<noteq> 0 \<or> s_eFlags touch AND EF_DEAD K = 0)"

definition g2_collision ::
  "engine_consts \<Rightarrow> oracles \<Rightarrow> moveclip_t \<Rightarrow> entity \<Rightarrow> CollisionRecord_t option"
where
  "g2_collision K X clip touch =
     g2_best (s_number touch)
       (G2API_CollisionDetect X touch (clip_start clip) (clip_end clip) (useLod clip)
          (g2_radius K clip))"

subsection \<open>Concrete inputs\<close>

text \<open>
  The values of the constants in the engine headers, and an entity with every field
  cleared, for the evaluations below.
\<close>

definition K0 :: engine_consts where
  "K0 = \<lparr>ENTITYNUM_NONE = 1023, ENTITYNUM_WORLD = 1022, MAX_GENTITIES = 1024,
     SOLID_BMODEL = 16777215, CONTENTS_SOLID = 1, CONTENTS_BODY = 256,
     CONTENTS_LIGHTSABER = 262144, CONTENTS_NOSHOT = 2097152, MASK_SHOT = 385,
     SVF_CAPSULE = 1024, SVF_OWNERNOTSHARED = 4096, ET_MISSILE = 3, EF_DEAD = 2,
     G2TRFLAG_DOGHOULTRACE = 1, G2TRFLAG_HITCORPSES = 2, G2TRFLAG_THICK = 32,
     G2TRFLAG_GETSURFINDEX = 8\<rparr>"

definition ent0 :: entity where
  "ent0 = \<lparr>worldSector = None, nextEntityInWorldSector = None, ghoul2 = False,
     r_linked = False, r_linkcount = 0, r_bmodel = False, r_svFlags = 0, r_contents = 0,
     r_ownerNum = 1023, r_mins = Vec3 0 0 0, r_maxs = Vec3 0 0 0,
     r_absmin = Vec3 0 0 0, r_absmax = Vec3 0 0 0, r_currentOrigin = Vec3 0 0 0,
     r_currentAngles = Vec3 0 0 0, s_number = 0, s_solid = 0, s_eType = 0, s_eFlags = 0,
     s_modelindex = 0\<rparr>"

text \<open>A point sweep along the first axis that the world does not block.\<close>

definition clip0 :: moveclip_t where
  "clip0 = \<lparr>boxmins = Vec3 (- 1) (- 1) (- 1), boxmaxs = Vec3 101 1 1,
     clip_mins = Vec3 0 0 0, clip_maxs = Vec3 0 0 0,
     clip_start = Vec3 0 0 0, clip_end = Vec3 100 0 0,
     passEntityNum = 5, contentmask = 385, capsule = 0, traceFlags = 0, useLod = 0,
     trace = \<lparr>allsolid = False, startsolid = False, fraction = 1, endpos = Vec3 100 0 0,
       plane_normal = Vec3 0 0 0, surfaceFlags = 0, contents = 0, entityNum = 1023\<rparr>\<rparr>"

text \<open>
  Four entities. The exact trace of the oracle below meets an entity at the fraction
  x/100 of the sweep, x the first coordinate of its origin, and is solid all along in an
  entity whose origin has the second coordinate 1. Its Ghoul2 test never finds a hit.
\<close>

definition ents0 :: "entity list" where
  "ents0 = [ent0\<lparr>s_number := 0, r_contents := 1, r_currentOrigin := Vec3 30 0 0\<rparr>,
            ent0\<lparr>s_number := 1, r_contents := 1, r_currentOrigin := Vec3 70 0 0\<rparr>,
            ent0\<lparr>s_number := 2, r_contents := 1, r_currentOrigin := Vec3 0 1 0, ghoul2 := True\<rparr>,
            ent0\<lparr>s_number := 3, r_contents := 1, r_currentOrigin := Vec3 0 0 0\<rparr>]"

definition hit_trace :: "vec3 \<Rightarrow> trace_t" where
  "hit_trace origin = \<lparr>allsolid = (vnth origin 1 = 1), startsolid = (vnth origin 1 = 1),
     fraction = vnth origin 0 / 100, endpos = Vec3 (vnth origin 0) 0 0,
     plane_normal = Vec3 (- 1) 0 0, surfaceFlags = 0, contents = 1, entityNum = 1022\<rparr>"

definition X0 :: oracles where
  "X0 = \<lparr>CM_BoxLeafnums = (\<lambda>absmin absmax. 1),
     RadiusFromBounds = (\<lambda>mins maxs. 0),
     CM_BoxTrace = (\<lambda>start end' mins maxs mask capsule. trace clip0),
     CM_TransformedBoxTrace =
       (\<lambda>start end' mins maxs h mask origin angles capsule. hit_trace origin),
     G2API_CollisionDetect = (\<lambda>touch start end' lod radius. [])\<rparr>"

text \<open>The same oracles in a world that blocks every sweep at its start.\<close>

definition X_blocked :: oracles where
  "X_blocked = X0\<lparr>CM_BoxTrace := (\<lambda>start end' mins maxs mask capsule. zero_trace)\<rparr>"

definition w_empty :: world where
  "w_empty = \<lparr>sv_worldSectors = [], sv_numworldSectors = 0, svEntities = []\<rparr>"

text \<open>A world of one leaf that holds entity 0, and the same world with the entity unlinked.\<close>

definition w_one :: world where
  "w_one = \<lparr>sv_worldSectors = [zero_sector\<lparr>axis := - 1, entities := Some 0\<rparr>],
     sv_numworldSectors = 1,
     svEntities = [ent0\<lparr>worldSector := Some 0, r_linked := True\<rparr>]\<rparr>"

definition w_one_unlinked :: world where
  "w_one_unlinked = \<lparr>sv_worldSectors = [zero_sector\<lparr>axis := - 1\<rparr>],
     sv_numworldSectors = 1, svEntities = [ent0]\<rparr>"

text \<open>
  A world of 2048 by 2048 units with four entities: a player-sized box in the upper
  right quarter, one at the origin, which crosses the first split plane, one in the upper
  left quarter, and one more at the origin that is never linked. \<open>w_linked\<close> is the
  world after \<^verbatim>\<open>SV_ClearWorld\<close> and \<^verbatim>\<open>SV_LinkEntity\<close> of the first three.
\<close>

definition w_ents :: world where
  "w_ents = \<lparr>sv_worldSectors = [], sv_numworldSectors = 0,
     svEntities =
       [ent0\<lparr>s_number := 0, r_contents := 256, r_mins := Vec3 (- 15) (- 15) (- 24),
              r_maxs := Vec3 15 15 32, r_currentOrigin := Vec3 100 100 0\<rparr>,
        ent0\<lparr>s_number := 1, r_contents := 256, r_mins := Vec3 (- 15) (- 15) (- 24),
              r_maxs := Vec3 15 15 32, r_currentOrigin := Vec3 0 0 0\<rparr>,
        ent0\<lparr>s_number := 2, r_contents := 256, r_mins := Vec3 (- 15) (- 15) (- 24),
              r_maxs := Vec3 15 15 32, r_currentOrigin := Vec3 (- 500) 300 0\<rparr>,
        ent0\<lparr>s_number := 3, r_contents := 256, r_mins := Vec3 (- 15) (- 15) (- 24),
              r_maxs := Vec3 15 15 32, r_absmin := Vec3 (- 16) (- 16) (- 25),
              r_absmax := Vec3 16 16 33\<rparr>]\<rparr>"

definition w_clear :: world where
  "w_clear = the (SV_ClearWorld (Vec3 (- 1024) (- 1024) (- 128)) (Vec3 1024 1024 128) w_ents)"

definition w_link0 :: world where
  "w_link0 = the (SV_LinkEntity K0 X0 0 w_clear)"

definition w_link1 :: world where
  "w_link1 = the (SV_LinkEntity K0 X0 1 w_link0)"

definition w_linked :: world where
  "w_linked = the (SV_LinkEntity K0 X0 2 w_link1)"

text \<open>
  A world of three unlinked entities for the encoded size: a box whose upper bound is the
  \<^verbatim>\<open>float\<close> below 1, a box of half-width 300, and an entity without contents.
\<close>

definition w_box_ents :: world where
  "w_box_ents = \<lparr>sv_worldSectors = [], sv_numworldSectors = 0,
     svEntities =
       [ent0\<lparr>s_number := 0, r_contents := 1, r_mins := Vec3 (- 1) (- 1) (- 1),
              r_maxs := Vec3 1 1 (16777215 / 16777216)\<rparr>,
        ent0\<lparr>s_number := 1, r_contents := 1, r_mins := Vec3 (- 300) (- 300) (- 300),
              r_maxs := Vec3 300 300 300\<rparr>,
        ent0\<lparr>s_number := 2\<rparr>]\<rparr>"

definition w_boxes :: world where
  "w_boxes = the (SV_ClearWorld (Vec3 (- 1024) (- 1024) (- 128)) (Vec3 1024 1024 128) w_box_ents)"

text \<open>
  The oracles with a Ghoul2 test that always records a hit of the candidate, at a place
  that is not on the sweep.
\<close>

definition X_mesh :: oracles where
  "X_mesh = X0\<lparr>G2API_CollisionDetect := (\<lambda>touch start end' lod radius.
     [\<lparr>mEntityNum = s_number touch, mCollisionPosition = Vec3 31 2 3,
       mCollisionNormal = Vec3 0 1 0, mSurfaceIndex = 7\<rparr>])\<rparr>"

text \<open>Entities 0 and 1 once more, entity 0 with a Ghoul2 model.\<close>

definition ents_g2 :: "entity list" where
  "ents_g2 = [ent0\<lparr>s_number := 0, r_contents := 1, r_currentOrigin := Vec3 30 0 0,
                   ghoul2 := True\<rparr>,
              ent0\<lparr>s_number := 1, r_contents := 1, r_currentOrigin := Vec3 70 0 0\<rparr>]"

text \<open>
  The four entities and three more that entity 5 owns, none of them shared: a mine, entity
  5 itself, and a thrown saber.
\<close>

definition ents_owned :: "entity list" where
  "ents_owned = ents0 @
     [ent0\<lparr>s_number := 4, r_ownerNum := 5, r_svFlags := 4096, r_contents := 1,
            r_currentOrigin := Vec3 50 0 0\<rparr>,
      ent0\<lparr>s_number := 5, r_ownerNum := 5, r_svFlags := 4096, r_contents := 1,
            r_currentOrigin := Vec3 50 0 0\<rparr>,
      ent0\<lparr>s_number := 6, r_ownerNum := 5, r_svFlags := 4096, r_contents := 262144,
            r_currentOrigin := Vec3 50 0 0\<rparr>]"


section \<open>The rounding of floats\<close>

text \<open>
  Some values of the rounding: 1/10 and 1/3 are no floats; \<open>2 ^ 24 + 1\<close> lies halfway
  between two floats and goes to the even one, as does \<open>2 ^ 24 + 3\<close>; below the least
  normal float the spacing stays \<open>2 ^ - 149\<close>.
\<close>

lemma f32_examples:
  "f32 (1 / 10) = 13421773 / 134217728"
  "f32 (1 / 3) = 11184811 / 33554432"
  "f32 16777217 = 16777216"
  "f32 (- 16777219) = - 16777220"
  "f32 (3 / 2 ^ 150) = 1 / 2 ^ 148"
  "f32 (1 - 1 / 2 ^ 26) = 1"
  by code_simp+

text \<open>
  The rounding never leaves an interval between two powers of two: a result is at most
  \<open>2 ^ n\<close> in magnitude when the exact value is.
\<close>

lemma pow2_as_powr: "pow2 n = 2 powr (real_of_int n)"
  by (auto simp: pow2_def powr_realpow [symmetric] powr_minus divide_simps)

lemma pow2_positive [simp]: "0 < pow2 n"
  by (simp add: pow2_as_powr)

lemma pow2_sum: "pow2 (a + b) = pow2 a * pow2 b"
  by (simp add: pow2_as_powr powr_add)

lemma pow2_of_nat: "pow2 (int n) = 2 ^ n"
  by (simp add: pow2_def)

lemma pow2_mono_iff: "pow2 a \<le> pow2 b \<longleftrightarrow> a \<le> b"
  by (simp add: pow2_as_powr)

lemma bitlen_int_bounds:
  "0 < n \<Longrightarrow> 1 \<le> bitlen_int n \<and> 2 ^ nat (bitlen_int n - 1) \<le> n \<and> n < 2 ^ nat (bitlen_int n)"
proof (induction n rule: bitlen_int.induct)
  case (1 n)
  show ?case
  proof (cases "n div 2 = 0")
    case True
    with 1(2) have n: "n = 1" by presburger
    have "bitlen_int 1 = 1"
      by (simp add: bitlen_int.simps [of 1] bitlen_int.simps [of 0])
    then show ?thesis by (simp add: n)
  next
    case False
    with 1(2) have p: "0 < n div 2" by presburger
    from 1(1) [OF _ p] 1(2) have b: "1 \<le> bitlen_int (n div 2)"
      "2 ^ nat (bitlen_int (n div 2) - 1) \<le> n div 2" "n div 2 < 2 ^ nat (bitlen_int (n div 2))"
      by auto
    have e: "bitlen_int n = 1 + bitlen_int (n div 2)"
      using 1(2) by (subst bitlen_int.simps) simp
    have s: "nat (1 + bitlen_int (n div 2)) = Suc (nat (bitlen_int (n div 2)))"
      "nat (bitlen_int (n div 2)) = Suc (nat (bitlen_int (n div 2) - 1))"
      using b(1) by simp_all
    have "2 ^ nat (bitlen_int (n div 2)) \<le> n"
      using b(2) unfolding s(2) [THEN arg_cong, of "\<lambda>k. (2::int) ^ k"] by simp
    moreover have "n < 2 ^ Suc (nat (bitlen_int (n div 2)))"
      using b(3) by simp
    ultimately show ?thesis
      using b(1) by (simp add: e s(1))
  qed
qed

lemma float_exponent_le:
  assumes "0 < x"
  shows "pow2 (float_exponent x) \<le> x"
proof (cases "1 \<le> x")
  case True
  then have p: "0 < \<lfloor>x\<rfloor>" by simp
  from bitlen_int_bounds [OF p] have b: "1 \<le> bitlen_int \<lfloor>x\<rfloor>"
    "2 ^ nat (bitlen_int \<lfloor>x\<rfloor> - 1) \<le> \<lfloor>x\<rfloor>"
    by auto
  have "pow2 (float_exponent x) = 2 ^ nat (bitlen_int \<lfloor>x\<rfloor> - 1)"
    using True b(1) by (simp add: float_exponent_def pow2_def)
  also have "\<dots> = real_of_int (2 ^ nat (bitlen_int \<lfloor>x\<rfloor> - 1))"
    by simp
  also have "\<dots> \<le> real_of_int \<lfloor>x\<rfloor>"
    using b(2) by (rule of_int_le_iff [THEN iffD2])
  also have "\<dots> \<le> x" by simp
  finally show ?thesis .
next
  case False
  with assms have "1 < 1 / x" by simp
  then have m: "2 \<le> \<lceil>1 / x\<rceil>" by linarith
  then have p: "0 < \<lceil>1 / x\<rceil> - 1" by simp
  let ?b = "bitlen_int (\<lceil>1 / x\<rceil> - 1)"
  from bitlen_int_bounds [OF p] have b: "1 \<le> ?b" "\<lceil>1 / x\<rceil> - 1 < 2 ^ nat ?b"
    by auto
  then have "\<lceil>1 / x\<rceil> \<le> 2 ^ nat ?b" by simp
  then have "real_of_int \<lceil>1 / x\<rceil> \<le> real_of_int (2 ^ nat ?b)"
    by (rule of_int_le_iff [THEN iffD2])
  then have "1 / x \<le> 2 ^ nat ?b"
    by (simp add: ceiling_le_iff)
  then have "1 / 2 ^ nat ?b \<le> x"
    using assms by (simp add: field_simps)
  moreover have "pow2 (float_exponent x) = 1 / 2 ^ nat ?b"
    using False b(1) by (simp add: float_exponent_def pow2_def)
  ultimately show ?thesis by simp
qed

lemma round_even_bounds:
  "\<lfloor>y\<rfloor> \<le> round_even y \<and> round_even y \<le> \<lceil>y\<rceil>"
  unfolding round_even_def Let_def by (auto; linarith)

lemma round_even_abs:
  assumes "\<bar>y\<bar> \<le> real_of_int m"
  shows "\<bar>round_even y\<bar> \<le> m"
proof -
  from assms have "y \<le> of_int m" "- of_int m \<le> y" by simp_all
  then have "\<lceil>y\<rceil> \<le> m" "- m \<le> \<lfloor>y\<rfloor>"
    by (simp_all add: ceiling_le_iff le_floor_iff)
  with round_even_bounds [of y] show ?thesis by linarith
qed

lemma f32_le_pow2:
  assumes "\<bar>x\<bar> \<le> 2 ^ n"
  shows "\<bar>f32 x\<bar> \<le> 2 ^ n"
proof (cases "x = 0")
  case True
  then show ?thesis by (simp add: f32_def)
next
  case False
  define e where "e = max (float_exponent \<bar>x\<bar>) (- 126)"
  define q where "q = pow2 (e - 23)"
  have q: "0 < q" by (simp add: q_def)
  have "pow2 (float_exponent \<bar>x\<bar>) \<le> pow2 (int n)"
    using float_exponent_le [of "\<bar>x\<bar>"] False assms by (simp add: pow2_of_nat)
  then have "float_exponent \<bar>x\<bar> \<le> int n"
    by (simp add: pow2_mono_iff)
  then have en: "e \<le> int n" by (simp add: e_def)
  define k where "k = nat (int n - (e - 23))"
  have k: "int k = int n - (e - 23)" using en by (simp add: k_def)
  have qk: "q * 2 ^ k = 2 ^ n"
  proof -
    have "q * 2 ^ k = pow2 (e - 23) * pow2 (int k)"
      by (simp add: q_def pow2_of_nat)
    also have "\<dots> = pow2 (int n)"
      unfolding pow2_sum [symmetric] k by simp
    finally show ?thesis by (simp add: pow2_of_nat)
  qed
  have "\<bar>x / q\<bar> \<le> 2 ^ k"
    using assms q qk by (simp add: field_simps abs_mult)
  then have "\<bar>x / q\<bar> \<le> real_of_int (2 ^ k)" by simp
  then have "\<bar>round_even (x / q)\<bar> \<le> 2 ^ k"
    by (rule round_even_abs)
  then have "\<bar>real_of_int (round_even (x / q))\<bar> \<le> 2 ^ k"
    by (metis of_int_abs of_int_le_iff of_int_numeral of_int_power)
  then have "\<bar>real_of_int (round_even (x / q))\<bar> * q \<le> 2 ^ k * q"
    using q by (simp add: mult_right_mono)
  moreover have "f32 x = of_int (round_even (x / q)) * q"
    using False by (simp add: f32_def Let_def q_def e_def)
  ultimately show ?thesis
    using q qk by (simp add: abs_mult mult.commute)
qed

section \<open>The world-sector tree\<close>

declare SV_CreateworldSector.simps [simp del]

lemma vnth_VectorSubtract:
  "vnth (VectorSubtract a b) i = f32 (vnth a i - vnth b i)"
  by (cases a; cases b) (simp add: VectorSubtract_def)

lemma is_sector_tree_Suc:
  "is_sector_tree (Suc k) secs mins maxs n \<longleftrightarrow>
     (\<exists>m a d. m = 2 ^ Suc k \<and>
        a = (if f32 (vnth maxs 0 - vnth mins 0) > f32 (vnth maxs 1 - vnth mins 1) then 0 else 1) \<and>
        d = f32 (0.5 * f32 (vnth maxs a + vnth mins a)) \<and>
        n < length secs \<and> axis (secs ! n) = int a \<and> dist (secs ! n) = d \<and>
        children0 (secs ! n) = Some (n + 1) \<and> children1 (secs ! n) = Some (n + m) \<and>
        is_sector_tree k secs (vset mins a d) maxs (n + 1) \<and>
        is_sector_tree k secs mins (vset maxs a d) (n + m))"
  unfolding is_sector_tree.simps(2) Let_def by blast

lemma pow2_Suc: "(2::nat) ^ Suc (Suc k) = 2 ^ Suc k + 2 ^ Suc k"
  by simp

lemma is_sector_tree_frame:
  assumes "is_sector_tree k secs mins maxs n"
    and "length secs' = length secs"
    and "\<And>i. n \<le> i \<Longrightarrow> i < n + 2 ^ Suc k - 1 \<Longrightarrow> secs' ! i = secs ! i"
  shows "is_sector_tree k secs' mins maxs n"
  using assms
proof (induction k arbitrary: mins maxs n)
  case 0
  then show ?case by simp
next
  case (Suc k)
  from Suc.prems(1) obtain m a d where m: "m = 2 ^ Suc k"
    and a: "a = (if f32 (vnth maxs 0 - vnth mins 0) > f32 (vnth maxs 1 - vnth mins 1) then 0 else 1)"
    and d: "d = f32 (0.5 * f32 (vnth maxs a + vnth mins a))"
    and n: "n < length secs" "axis (secs ! n) = int a" "dist (secs ! n) = d"
       "children0 (secs ! n) = Some (n + 1)" "children1 (secs ! n) = Some (n + m)"
    and l: "is_sector_tree k secs (vset mins a d) maxs (n + 1)"
    and r: "is_sector_tree k secs mins (vset maxs a d) (n + m)"
    unfolding is_sector_tree_Suc by blast
  have pos: "1 \<le> m" by (simp add: m)
  have same: "secs' ! i = secs ! i" if "n \<le> i" "i < n + (m + m) - 1" for i
    using Suc.prems(3) [of i] that unfolding pow2_Suc m by blast
  have here: "secs' ! n = secs ! n"
    using pos by (intro same) simp_all
  have l': "is_sector_tree k secs' (vset mins a d) maxs (n + 1)"
  proof (rule Suc.IH [OF l Suc.prems(2)])
    fix i assume "n + 1 \<le> i" "i < n + 1 + 2 ^ Suc k - 1"
    then show "secs' ! i = secs ! i"
      unfolding m [symmetric] using pos by (intro same) simp_all
  qed
  have r': "is_sector_tree k secs' mins (vset maxs a d) (n + m)"
  proof (rule Suc.IH [OF r Suc.prems(2)])
    fix i assume "n + m \<le> i" "i < n + m + 2 ^ Suc k - 1"
    then show "secs' ! i = secs ! i"
      unfolding m [symmetric] using pos by (intro same) simp_all
  qed
  show ?case
    unfolding is_sector_tree_Suc using m a d n l' r' here Suc.prems(2) by simp
qed

lemma sector_nodes_tree:
  "is_sector_tree k secs mins maxs n \<Longrightarrow> sector_nodes k secs n = [n ..< n + 2 ^ Suc k - 1]"
proof (induction k arbitrary: mins maxs n)
  case 0
  then show ?case by simp
next
  case (Suc k)
  from Suc.prems(1) obtain m a d where m: "m = 2 ^ Suc k"
    and c: "children0 (secs ! n) = Some (n + 1)" "children1 (secs ! n) = Some (n + m)"
    and l: "is_sector_tree k secs (vset mins a d) maxs (n + 1)"
    and r: "is_sector_tree k secs mins (vset maxs a d) (n + m)"
    unfolding is_sector_tree_Suc by blast
  have pos: "1 \<le> m" by (simp add: m)
  have "sector_nodes (Suc k) secs n =
      n # [n + 1 ..< n + 1 + m - 1] @ [n + m ..< n + m + m - 1]"
    using Suc.IH [OF l] Suc.IH [OF r] c unfolding m [symmetric] by simp
  also have "\<dots> = [n ..< n + (m + m) - 1]"
  proof -
    have 1: "[n ..< n + (m + m) - 1] = n # [n + 1 ..< n + (m + m) - 1]"
      using pos by (subst upt_conv_Cons) simp_all
    have e: "n + (m + m) - 1 = (n + m) + (m - 1)"
      using pos by simp
    have 2: "[n + 1 ..< n + (m + m) - 1] = [n + 1 ..< n + m] @ [n + m ..< n + (m + m) - 1]"
      unfolding e using pos by (intro upt_add_eq_append) simp
    show ?thesis
      unfolding 1 2 using pos by (simp add: add.assoc)
  qed
  finally show ?case
    unfolding pow2_Suc m .
qed


lemma create_leaf:
  assumes "num < length secs"
  shows "SV_CreateworldSector AREA_DEPTH mins maxs (secs, num) =
     Some (num, secs[num := (secs ! num)\<lparr>axis := - 1, children0 := None, children1 := None\<rparr>],
           num + 1)"
  using assms by (subst SV_CreateworldSector.simps) simp

lemma create_node:
  assumes "num < length secs" "depth < AREA_DEPTH"
    and "a = (if f32 (vnth maxs 0 - vnth mins 0) > f32 (vnth maxs 1 - vnth mins 1) then 0 else 1)"
    and "d = f32 (0.5 * f32 (vnth maxs a + vnth mins a))"
    and "SV_CreateworldSector (depth + 1) (vset mins a d) maxs
           (secs[num := (secs ! num)\<lparr>axis := int a, dist := d\<rparr>], num + 1) =
         Some (c0, secs2, num2)"
    and "SV_CreateworldSector (depth + 1) mins (vset maxs a d)
           (secs2[num := (secs2 ! num)\<lparr>children0 := Some c0\<rparr>], num2) =
         Some (c1, secs3, num3)"
  shows "SV_CreateworldSector depth mins maxs (secs, num) =
     Some (num, secs3[num := (secs3 ! num)\<lparr>children1 := Some c1\<rparr>], num3)"
proof (cases "f32 (vnth maxs 0 - vnth mins 0) > f32 (vnth maxs 1 - vnth mins 1)")
  case True
  then have a: "a = 0" using assms(3) by simp
  show ?thesis
    using assms(1,2,5,6) True unfolding assms(4) a
    by (subst SV_CreateworldSector.simps) (simp add: Let_def vnth_VectorSubtract)
next
  case False
  then have a: "a = 1" using assms(3) by simp
  show ?thesis
    using assms(1,2,5,6) False unfolding assms(4) a
    by (subst SV_CreateworldSector.simps) (simp add: Let_def vnth_VectorSubtract)
qed


lemma create_sector_tree:
  assumes "depth + k = AREA_DEPTH" "num + 2 ^ Suc k - 1 \<le> length secs"
  shows "\<exists>secs'. SV_CreateworldSector depth mins maxs (secs, num) =
                    Some (num, secs', num + 2 ^ Suc k - 1) \<and>
           length secs' = length secs \<and>
           (\<forall>i. i < num \<or> num + 2 ^ Suc k - 1 \<le> i \<longrightarrow> secs' ! i = secs ! i) \<and>
           (\<forall>i. entities (secs' ! i) = entities (secs ! i)) \<and>
           is_sector_tree k secs' mins maxs num"
  using assms
proof (induction k arbitrary: depth mins maxs secs num)
  case 0
  then have d: "depth = AREA_DEPTH" and n: "num < length secs"
    by simp_all
  let ?s = "secs[num := (secs ! num)\<lparr>axis := - 1, children0 := None, children1 := None\<rparr>]"
  have "SV_CreateworldSector depth mins maxs (secs, num) = Some (num, ?s, num + 2 ^ Suc 0 - 1)"
    unfolding d using create_leaf [OF n] by simp
  moreover have "\<forall>i. entities (?s ! i) = entities (secs ! i)"
    using n by (simp add: nth_list_update)
  moreover have "is_sector_tree 0 ?s mins maxs num"
    using n by simp
  ultimately show ?case
    by (intro exI [of _ ?s]) simp
next
  case (Suc k)
  define m :: nat where "m = 2 ^ Suc k"
  have pos: "1 \<le> m" by (simp add: m_def)
  have len: "num + (m + m) - 1 \<le> length secs"
    using Suc.prems(2) unfolding pow2_Suc m_def .
  have n: "num < length secs" using len pos by simp
  have dp: "depth < AREA_DEPTH" "depth + 1 + k = AREA_DEPTH"
    using Suc.prems(1) by simp_all
  define a :: nat where
    "a = (if f32 (vnth maxs 0 - vnth mins 0) > f32 (vnth maxs 1 - vnth mins 1) then 0 else 1)"
  define d where "d = f32 (0.5 * f32 (vnth maxs a + vnth mins a))"
  define secs1 where "secs1 = secs[num := (secs ! num)\<lparr>axis := int a, dist := d\<rparr>]"
  have "num + 1 + m - 1 \<le> length secs1"
    using len pos by (simp add: secs1_def)
  from Suc.IH [OF dp(2) this [unfolded m_def], of "vset mins a d" maxs] obtain secs2 where
    c1: "SV_CreateworldSector (depth + 1) (vset mins a d) maxs (secs1, num + 1) =
           Some (num + 1, secs2, num + m)"
    and l2: "length secs2 = length secs"
    and f2: "\<And>i. i < num + 1 \<or> num + m \<le> i \<Longrightarrow> secs2 ! i = secs1 ! i"
    and e2: "\<And>i. entities (secs2 ! i) = entities (secs1 ! i)"
    and t2: "is_sector_tree k secs2 (vset mins a d) maxs (num + 1)"
    unfolding m_def [symmetric] by (auto simp: secs1_def)
  define secs2' where "secs2' = secs2[num := (secs2 ! num)\<lparr>children0 := Some (num + 1)\<rparr>]"
  have "num + m + m - 1 \<le> length secs2'"
    using len by (simp add: secs2'_def l2 add.assoc)
  from Suc.IH [OF dp(2) this [unfolded m_def], of mins "vset maxs a d"] obtain secs3 where
    c2: "SV_CreateworldSector (depth + 1) mins (vset maxs a d) (secs2', num + m) =
           Some (num + m, secs3, num + m + m - 1)"
    and l3: "length secs3 = length secs"
    and f3: "\<And>i. i < num + m \<or> num + m + m - 1 \<le> i \<Longrightarrow> secs3 ! i = secs2' ! i"
    and e3: "\<And>i. entities (secs3 ! i) = entities (secs2' ! i)"
    and t3: "is_sector_tree k secs3 mins (vset maxs a d) (num + m)"
    unfolding m_def [symmetric] by (auto simp: secs2'_def l2)
  define secs3' where "secs3' = secs3[num := (secs3 ! num)\<lparr>children1 := Some (num + m)\<rparr>]"
  have call: "SV_CreateworldSector depth mins maxs (secs, num) =
      Some (num, secs3', num + m + m - 1)"
    unfolding secs3'_def
    by (rule create_node [OF n dp(1) a_def d_def c1 [unfolded secs1_def] c2 [unfolded secs2'_def]])
  have l3': "length secs3' = length secs"
    by (simp add: secs3'_def l3)
  have at_num: "secs3' ! num = (secs ! num)\<lparr>axis := int a, dist := d,
      children0 := Some (num + 1), children1 := Some (num + m)\<rparr>"
  proof -
    have "secs2 ! num = secs1 ! num" by (rule f2) simp
    then have 2: "secs2' ! num = (secs ! num)\<lparr>axis := int a, dist := d,
        children0 := Some (num + 1)\<rparr>"
      using n by (simp add: secs2'_def secs1_def l2)
    have "secs3 ! num = secs2' ! num" using pos by (intro f3) simp
    then show ?thesis
      using n by (simp add: secs3'_def l3 2)
  qed
  have other: "secs3' ! i = secs3 ! i" if "i \<noteq> num" for i
    using that by (simp add: secs3'_def)
  have other2: "secs2' ! i = secs2 ! i" if "i \<noteq> num" for i
    using that by (simp add: secs2'_def)
  have other1: "secs1 ! i = secs ! i" if "i \<noteq> num" for i
    using that by (simp add: secs1_def)
  have frame: "secs3' ! i = secs ! i" if "i < num \<or> num + (m + m) - 1 \<le> i" for i
  proof -
    have ne: "i \<noteq> num" using that pos by auto
    have "secs3' ! i = secs3 ! i" using ne by (rule other)
    also have "\<dots> = secs2' ! i" using that pos by (intro f3) auto
    also have "\<dots> = secs2 ! i" using ne by (rule other2)
    also have "\<dots> = secs1 ! i" using that pos by (intro f2) auto
    also have "\<dots> = secs ! i" using ne by (rule other1)
    finally show ?thesis .
  qed
  have ents: "entities (secs3' ! i) = entities (secs ! i)" for i
  proof (cases "i = num")
    case True
    then show ?thesis by (simp add: at_num)
  next
    case False
    then show ?thesis
      by (simp add: other other2 other1 e3 e2)
  qed
  have left: "is_sector_tree k secs3' (vset mins a d) maxs (num + 1)"
  proof (rule is_sector_tree_frame [OF t2])
    show "length secs3' = length secs2" by (simp add: l3' l2)
    fix i assume i: "num + 1 \<le> i" "i < num + 1 + 2 ^ Suc k - 1"
    then have ne: "i \<noteq> num" and lt: "i < num + m"
      unfolding m_def [symmetric] by simp_all
    have "secs3' ! i = secs3 ! i" using ne by (rule other)
    also have "\<dots> = secs2' ! i" using lt by (intro f3) simp
    also have "\<dots> = secs2 ! i" using ne by (rule other2)
    finally show "secs3' ! i = secs2 ! i" .
  qed
  have right: "is_sector_tree k secs3' mins (vset maxs a d) (num + m)"
  proof (rule is_sector_tree_frame [OF t3])
    show "length secs3' = length secs3" by (simp add: l3' l3)
    fix i assume i: "num + m \<le> i"
    then have ne: "i \<noteq> num" using pos by simp
    show "secs3' ! i = secs3 ! i" using ne by (rule other)
  qed
  have tree: "is_sector_tree (Suc k) secs3' mins maxs num"
    unfolding is_sector_tree_Suc
  proof (intro exI conjI)
    show "m = 2 ^ Suc k" by (rule m_def)
    show "a = (if f32 (vnth maxs 0 - vnth mins 0) > f32 (vnth maxs 1 - vnth mins 1) then 0 else 1)"
      by (rule a_def)
    show "d = f32 (0.5 * f32 (vnth maxs a + vnth mins a))" by (rule d_def)
    show "num < length secs3'" using n by (simp add: l3')
    show "axis (secs3' ! num) = int a" "dist (secs3' ! num) = d"
      "children0 (secs3' ! num) = Some (num + 1)" "children1 (secs3' ! num) = Some (num + m)"
      by (simp_all add: at_num)
    show "is_sector_tree k secs3' (vset mins a d) maxs (num + 1)" by (rule left)
    show "is_sector_tree k secs3' mins (vset maxs a d) (num + m)" by (rule right)
  qed
  have e: "num + m + m - 1 = num + (m + m) - 1" by simp
  show ?case
    unfolding pow2_Suc m_def [symmetric]
    using call l3' frame ents tree unfolding e by (intro exI [of _ secs3']) simp
qed


lemma clear_world:
  "\<exists>secs. SV_CreateworldSector 0 mins maxs (replicate AREA_NODES zero_sector, 0) =
            Some (0, secs, 31) \<and>
          length secs = AREA_NODES \<and>
          (\<forall>i. entities (secs ! i) = entities (replicate AREA_NODES zero_sector ! i)) \<and>
          is_sector_tree AREA_DEPTH secs mins maxs 0"
proof -
  have "0 + 2 ^ Suc AREA_DEPTH - 1 \<le> length (replicate AREA_NODES zero_sector)"
    by (simp add: AREA_DEPTH_def AREA_NODES_def)
  from create_sector_tree [OF _ this, of 0 mins maxs]
  show ?thesis by (auto simp: AREA_DEPTH_def)
qed

lemma tree_layout:
  "is_sector_tree k secs mins maxs n \<Longrightarrow> sector_layout k secs n"
proof (induction k arbitrary: mins maxs n)
  case 0
  then show ?case by simp
next
  case (Suc k)
  from Suc.prems obtain m a d where m: "m = 2 ^ Suc k"
    and a: "a = (if f32 (vnth maxs 0 - vnth mins 0) > f32 (vnth maxs 1 - vnth mins 1) then 0 else 1)"
    and n: "n < length secs" "axis (secs ! n) = int a"
       "children0 (secs ! n) = Some (n + 1)" "children1 (secs ! n) = Some (n + m)"
    and l: "is_sector_tree k secs (vset mins a d) maxs (n + 1)"
    and r: "is_sector_tree k secs mins (vset maxs a d) (n + m)"
    unfolding is_sector_tree_Suc by blast
  have "axis (secs ! n) = 0 \<or> axis (secs ! n) = 1"
    using n(2) a by auto
  with n Suc.IH [OF l] Suc.IH [OF r] show ?case
    unfolding m by simp
qed

text \<open>
  The boxes that the splits make of a box in range are in range, and in a box in range
  the extents and the sum that the code computes are at most \<open>2 ^ 127\<close> in magnitude,
  below the largest \<^verbatim>\<open>float\<close>.
\<close>

lemma vnth_vset:
  "a = 0 \<or> a = 1 \<Longrightarrow> vnth (vset v a d) i = (if i = a then d else vnth v i)"
  by (cases v) auto

lemma split_in_range:
  assumes "box_in_range mins maxs" and a: "a = 0 \<or> a = 1"
  shows "\<bar>f32 (vnth maxs 0 - vnth mins 0)\<bar> \<le> 2 ^ 127"
    and "\<bar>f32 (vnth maxs 1 - vnth mins 1)\<bar> \<le> 2 ^ 127"
    and "\<bar>f32 (vnth maxs a + vnth mins a)\<bar> \<le> 2 ^ 127"
    and "box_in_range (vset mins a (f32 (0.5 * f32 (vnth maxs a + vnth mins a)))) maxs"
    and "box_in_range mins (vset maxs a (f32 (0.5 * f32 (vnth maxs a + vnth mins a))))"
proof -
  have two: "(2::real) ^ 127 = 2 ^ 126 + 2 ^ 126" by simp
  from assms(1) have r: "\<bar>vnth mins 0\<bar> \<le> 2 ^ 126" "\<bar>vnth maxs 0\<bar> \<le> 2 ^ 126"
    "\<bar>vnth mins 1\<bar> \<le> 2 ^ 126" "\<bar>vnth maxs 1\<bar> \<le> 2 ^ 126"
    by (simp_all add: box_in_range_def)
  have e: "\<bar>vnth maxs 0 - vnth mins 0\<bar> \<le> 2 ^ 127" "\<bar>vnth maxs 1 - vnth mins 1\<bar> \<le> 2 ^ 127"
    unfolding two using r by linarith+
  show "\<bar>f32 (vnth maxs 0 - vnth mins 0)\<bar> \<le> 2 ^ 127"
    using e(1) by (rule f32_le_pow2)
  show "\<bar>f32 (vnth maxs 1 - vnth mins 1)\<bar> \<le> 2 ^ 127"
    using e(2) by (rule f32_le_pow2)
  have ra: "\<bar>vnth mins a\<bar> \<le> 2 ^ 126" "\<bar>vnth maxs a\<bar> \<le> 2 ^ 126"
    using a r by auto
  have "\<bar>vnth maxs a + vnth mins a\<bar> \<le> 2 ^ 127"
    unfolding two using ra by linarith
  then show s: "\<bar>f32 (vnth maxs a + vnth mins a)\<bar> \<le> 2 ^ 127"
    by (rule f32_le_pow2)
  have "\<bar>0.5 * f32 (vnth maxs a + vnth mins a)\<bar> \<le> 2 ^ 126"
    using s unfolding two by (simp add: abs_mult)
  then have d: "\<bar>f32 (0.5 * f32 (vnth maxs a + vnth mins a))\<bar> \<le> 2 ^ 126"
    by (rule f32_le_pow2)
  show "box_in_range (vset mins a (f32 (0.5 * f32 (vnth maxs a + vnth mins a)))) maxs"
    "box_in_range mins (vset maxs a (f32 (0.5 * f32 (vnth maxs a + vnth mins a))))"
    unfolding box_in_range_def using r d a by (auto simp: vnth_vset)
qed

text \<open>
  C7. For every world box, \<^verbatim>\<open>SV_ClearWorld\<close> returns, and leaves
  \<open>2 ^ (AREA_DEPTH + 1) - 1 = 31\<close> sectors allocated. The sectors reached from sector 0
  through the child pointers are the sectors 0 to 30, each once: every sector above the
  last level has two children and splits the first or the second axis, every sector of the
  last level is a leaf with axis -1 and no children. The sectors are the same whatever the
  world was before, and the entities are not touched. For a box in the range of the
  \<^verbatim>\<open>float\<close> arithmetic, sector 0 is the root of a tree of height \<open>AREA_DEPTH\<close> for the
  box: every sector above the last level splits the longer of the first two extents of its
  own box, at the midpoint \<^verbatim>\<open>0.5 * (maxs[axis] + mins[axis])\<close>, extents and midpoint as the
  \<^verbatim>\<open>float\<close> arithmetic gives them.
\<close>

theorem C7_sector_tree:
  "\<exists>w'. SV_ClearWorld mins maxs w = Some w' \<and>
      sv_numworldSectors w' = 2 ^ (AREA_DEPTH + 1) - 1 \<and> sv_numworldSectors w' = 31 \<and>
      sector_nodes AREA_DEPTH (sv_worldSectors w') 0 = [0 ..< 31] \<and>
      sector_layout AREA_DEPTH (sv_worldSectors w') 0 \<and>
      (box_in_range mins maxs \<longrightarrow>
         is_sector_tree AREA_DEPTH (sv_worldSectors w') mins maxs 0) \<and>
      svEntities w' = svEntities w \<and>
      (\<forall>v. \<exists>v'. SV_ClearWorld mins maxs v = Some v' \<and>
         sv_worldSectors v' = sv_worldSectors w' \<and>
         sv_numworldSectors v' = sv_numworldSectors w')"
proof -
  from clear_world [of mins maxs] obtain secs where
    c: "SV_CreateworldSector 0 mins maxs (replicate AREA_NODES zero_sector, 0) = Some (0, secs, 31)"
    and t: "is_sector_tree AREA_DEPTH secs mins maxs 0"
    by blast
  have n: "sector_nodes AREA_DEPTH secs 0 = [0 ..< 31]"
    using sector_nodes_tree [OF t] by (simp add: AREA_DEPTH_def)
  have l: "sector_layout AREA_DEPTH secs 0"
    using t by (rule tree_layout)
  have "SV_ClearWorld mins maxs v =
      Some (v\<lparr>sv_worldSectors := secs, sv_numworldSectors := 31\<rparr>)" for v
    by (simp add: SV_ClearWorld_def c)
  then show ?thesis
    using t n l by (simp add: AREA_DEPTH_def)
qed

lemma depth4: "AREA_DEPTH = Suc (Suc (Suc (Suc 0)))"
  by (simp add: AREA_DEPTH_def)

text \<open>
  The theorem at a world box whose first extent is the longer one and whose sum of the
  first coordinates, \<open>2 ^ 24 + 1\<close>, is no \<^verbatim>\<open>float\<close>: it is rounded to \<open>2 ^ 24\<close>, and the
  root splits the first axis at \<open>2 ^ 23\<close>.
\<close>

theorem C7_sector_tree_witness:
  "box_in_range (Vec3 1 0 0) (Vec3 16777216 3 0) \<and>
   (\<exists>w'. SV_ClearWorld (Vec3 1 0 0) (Vec3 16777216 3 0) w_empty = Some w' \<and>
      sv_numworldSectors w' = 31 \<and>
      axis (sv_worldSectors w' ! 0) = 0 \<and> dist (sv_worldSectors w' ! 0) = 8388608 \<and>
      children0 (sv_worldSectors w' ! 0) = Some 1 \<and>
      children1 (sv_worldSectors w' ! 0) = Some 16 \<and>
      sector_nodes AREA_DEPTH (sv_worldSectors w') 0 = [0 ..< 31])"
proof -
  have b: "box_in_range (Vec3 1 0 0) (Vec3 16777216 3 0)"
    by (simp add: box_in_range_def)
  from C7_sector_tree [of "Vec3 1 0 0" "Vec3 16777216 3 0" w_empty] b
  obtain w' where
    c: "SV_ClearWorld (Vec3 1 0 0) (Vec3 16777216 3 0) w_empty = Some w'"
    and n: "sv_numworldSectors w' = 31"
    and t: "is_sector_tree AREA_DEPTH (sv_worldSectors w') (Vec3 1 0 0) (Vec3 16777216 3 0) 0"
    and s: "sector_nodes AREA_DEPTH (sv_worldSectors w') 0 = [0 ..< 31]"
    by blast
  have f: "f32 16777215 = 16777215" "f32 3 = 3" "f32 16777217 = 16777216"
    "f32 8388608 = 8388608"
    by code_simp+
  have "AREA_DEPTH = Suc 3" by (simp add: AREA_DEPTH_def)
  from t [unfolded this is_sector_tree_Suc]
  have "axis (sv_worldSectors w' ! 0) = 0 \<and> dist (sv_worldSectors w' ! 0) = 8388608 \<and>
      children0 (sv_worldSectors w' ! 0) = Some 1 \<and>
      children1 (sv_worldSectors w' ! 0) = Some 16"
    by (auto simp: f)
  with b c n s show ?thesis by blast
qed

section \<open>Unlinking\<close>

lemma upd_linked_id: "\<not> r_linked e \<Longrightarrow> e\<lparr>r_linked := False\<rparr> = e"
  by (cases e) simp

lemma unlink_scan_fields:
  assumes "unlink_scan ents ent scan = Some r"
  shows "length (fst r) = length ents \<and>
     (\<forall>i. worldSector (fst r ! i) = worldSector (ents ! i)) \<and>
     (\<forall>i. r_linked (fst r ! i) = r_linked (ents ! i))"
  using assms
proof (induction ents ent scan r rule: unlink_scan.raw_induct [rotated 1, consumes 1])
  case (1 unlink_scan' ents ent scan r)
  then show ?case
    by (auto split: option.splits if_splits simp: nth_list_update)
qed

text \<open>The paths through \<^verbatim>\<open>SV_UnlinkEntity\<close>.\<close>

lemma unlink_unlinked:
  assumes "gEnt < length (svEntities w)" "worldSector (svEntities w ! gEnt) = None"
  shows "SV_UnlinkEntity gEnt w =
     Some (w\<lparr>svEntities := (svEntities w)[gEnt := (svEntities w ! gEnt)\<lparr>r_linked := False\<rparr>]\<rparr>,
           False)"
  using assms by (simp add: SV_UnlinkEntity_def Let_def)

lemma unlink_None:
  assumes "SV_UnlinkEntity gEnt w = Some (w1, warned)"
  shows "gEnt < length (svEntities w)"
  using assms by (simp add: SV_UnlinkEntity_def split: if_splits)

lemma unlink_head:
  assumes "gEnt < length (svEntities w)" "worldSector (svEntities w ! gEnt) = Some ws"
    "ws < length (sv_worldSectors w)"
    "entities (sv_worldSectors w ! ws) = Some gEnt"
  shows "SV_UnlinkEntity gEnt w =
     Some (w\<lparr>sv_worldSectors := (sv_worldSectors w)[ws := (sv_worldSectors w ! ws)
                \<lparr>entities := nextEntityInWorldSector (svEntities w ! gEnt)\<rparr>],
             svEntities := (svEntities w)[gEnt := (svEntities w ! gEnt)
                \<lparr>r_linked := False, worldSector := None\<rparr>]\<rparr>, False)"
  using assms by (simp add: SV_UnlinkEntity_def Let_def)

lemma unlink_scanned:
  assumes "gEnt < length (svEntities w)" "worldSector (svEntities w ! gEnt) = Some ws"
    "ws < length (sv_worldSectors w)"
    "entities (sv_worldSectors w ! ws) \<noteq> Some gEnt"
  shows "SV_UnlinkEntity gEnt w =
     (case unlink_scan ((svEntities w)[gEnt := (svEntities w ! gEnt)
                \<lparr>r_linked := False, worldSector := None\<rparr>]) gEnt
             (entities (sv_worldSectors w ! ws)) of
        None \<Rightarrow> None
      | Some (ents3, warned) \<Rightarrow> Some (w\<lparr>svEntities := ents3\<rparr>, warned))"
  using assms by (simp add: SV_UnlinkEntity_def Let_def)

lemma unlink_bad_sector:
  assumes "gEnt < length (svEntities w)" "worldSector (svEntities w ! gEnt) = Some ws"
    "\<not> ws < length (sv_worldSectors w)"
  shows "SV_UnlinkEntity gEnt w = None"
  using assms by (simp add: SV_UnlinkEntity_def Let_def)

lemma unlink_result:
  assumes "SV_UnlinkEntity gEnt w = Some (w1, warned)"
  shows "gEnt < length (svEntities w1) \<and> worldSector (svEntities w1 ! gEnt) = None \<and>
         \<not> r_linked (svEntities w1 ! gEnt)"
proof -
  have len: "gEnt < length (svEntities w)"
    using assms by (rule unlink_None)
  show ?thesis
  proof (cases "worldSector (svEntities w ! gEnt)")
    case None
    from assms show ?thesis
      unfolding unlink_unlinked [OF len None] using len None by auto
  next
    case (Some ws)
    show ?thesis
    proof (cases "ws < length (sv_worldSectors w)")
      case False
      with assms unlink_bad_sector [OF len Some] show ?thesis by simp
    next
      case ws: True
      show ?thesis
      proof (cases "entities (sv_worldSectors w ! ws) = Some gEnt")
        case True
        from assms show ?thesis
          unfolding unlink_head [OF len Some ws True] using len by auto
      next
        case False
        from assms obtain ents3 where
          sc: "unlink_scan ((svEntities w)[gEnt := (svEntities w ! gEnt)
                 \<lparr>r_linked := False, worldSector := None\<rparr>]) gEnt
                 (entities (sv_worldSectors w ! ws)) = Some (ents3, warned)"
          and w1: "w1 = w\<lparr>svEntities := ents3\<rparr>"
          unfolding unlink_scanned [OF len Some ws False]
          by (auto split: option.splits)
        from unlink_scan_fields [OF sc] show ?thesis
          using len by (simp add: w1)
      qed
    qed
  qed
qed

text \<open>
  C9. \<^verbatim>\<open>SV_UnlinkEntity\<close> of an entity that is in no sector returns without a warning;
  it changes no sector and no entity other than clearing \<^verbatim>\<open>r.linked\<close> of that entity,
  which stays in no sector. After any \<^verbatim>\<open>SV_UnlinkEntity\<close> that returns, a second one of
  the same entity returns the same world, without a warning.
\<close>

theorem C9_unlink_unlinked:
  "(gEnt < length (svEntities w) \<and> worldSector (svEntities w ! gEnt) = None \<longrightarrow>
      SV_UnlinkEntity gEnt w =
        Some (w\<lparr>svEntities := (svEntities w)[gEnt := (svEntities w ! gEnt)\<lparr>r_linked := False\<rparr>]\<rparr>,
              False)) \<and>
   (SV_UnlinkEntity gEnt w = Some (w1, warned) \<longrightarrow> SV_UnlinkEntity gEnt w1 = Some (w1, False))"
proof (intro conjI impI)
  assume "gEnt < length (svEntities w) \<and> worldSector (svEntities w ! gEnt) = None"
  then show "SV_UnlinkEntity gEnt w =
        Some (w\<lparr>svEntities := (svEntities w)[gEnt := (svEntities w ! gEnt)\<lparr>r_linked := False\<rparr>]\<rparr>,
              False)"
    by (simp add: unlink_unlinked)
next
  assume "SV_UnlinkEntity gEnt w = Some (w1, warned)"
  then have r: "gEnt < length (svEntities w1)" "worldSector (svEntities w1 ! gEnt) = None"
    "\<not> r_linked (svEntities w1 ! gEnt)"
    using unlink_result by blast+
  show "SV_UnlinkEntity gEnt w1 = Some (w1, False)"
    unfolding unlink_unlinked [OF r(1,2)] by (simp add: upd_linked_id [OF r(3)])
qed

text \<open>
  The theorem at a world of one leaf that holds entity 0: the first unlink takes the
  entity out of the leaf, the second changes nothing.
\<close>

theorem C9_unlink_unlinked_witness:
  "SV_UnlinkEntity 0 w_one = Some (w_one_unlinked, False) \<and>
   SV_UnlinkEntity 0 w_one_unlinked = Some (w_one_unlinked, False) \<and>
   SV_UnlinkEntity 0 (w_one_unlinked\<lparr>svEntities := [ent0\<lparr>r_linked := True\<rparr>]\<rparr>) =
     Some (w_one_unlinked, False)"
proof -
  have a: "SV_UnlinkEntity 0 w_one = Some (w_one_unlinked, False)"
    by code_simp
  have b: "0 < length (svEntities (w_one_unlinked\<lparr>svEntities := [ent0\<lparr>r_linked := True\<rparr>]\<rparr>)) \<and>
      worldSector (svEntities (w_one_unlinked\<lparr>svEntities := [ent0\<lparr>r_linked := True\<rparr>]\<rparr>) ! 0)
        = None"
    by code_simp
  have c: "(w_one_unlinked\<lparr>svEntities := [ent0\<lparr>r_linked := True\<rparr>]\<rparr>)
      \<lparr>svEntities := (svEntities (w_one_unlinked\<lparr>svEntities := [ent0\<lparr>r_linked := True\<rparr>]\<rparr>))
         [0 := (svEntities (w_one_unlinked\<lparr>svEntities := [ent0\<lparr>r_linked := True\<rparr>]\<rparr>) ! 0)
                 \<lparr>r_linked := False\<rparr>]\<rparr> = w_one_unlinked"
    by code_simp
  show ?thesis
    using a b c
      C9_unlink_unlinked [where gEnt = 0 and w = w_one and ?w1.0 = w_one_unlinked
        and warned = False]
      C9_unlink_unlinked [where gEnt = 0
        and w = "w_one_unlinked\<lparr>svEntities := [ent0\<lparr>r_linked := True\<rparr>]\<rparr>"]
    by simp
qed

section \<open>The area query\<close>


subsection \<open>Writing to the list up to the cap\<close>

lemma cap_app_params [simp]:
  "ap_mins (cap_app ap cs) = ap_mins ap"
  "ap_maxs (cap_app ap cs) = ap_maxs ap"
  "maxcount (cap_app ap cs) = maxcount ap"
  by (induction ap cs rule: cap_app.induct) simp_all

lemma cap_app_full: "ap_count ap = maxcount ap \<Longrightarrow> cap_app ap cs = ap"
  by (cases cs) simp_all

lemma cap_app_append: "cap_app ap (cs @ ds) = cap_app (cap_app ap cs) ds"
proof (induction ap cs rule: cap_app.induct)
  case (1 ap)
  then show ?case by simp
next
  case (2 ap c cs)
  then show ?case by (simp add: cap_app_full)
qed

lemma cap_app_count:
  "ap_count ap = int (length (ap_list ap)) \<Longrightarrow>
     ap_count (cap_app ap cs) = int (length (ap_list (cap_app ap cs)))"
  by (induction ap cs rule: cap_app.induct) simp_all

lemma cap_app_le:
  "ap_count ap \<le> maxcount ap \<Longrightarrow> ap_count (cap_app ap cs) \<le> maxcount ap"
  by (induction ap cs rule: cap_app.induct) simp_all

lemma cap_app_take: "\<exists>m. ap_list (cap_app ap cs) = ap_list ap @ take m cs"
proof (induction ap cs rule: cap_app.induct)
  case (1 ap)
  then show ?case by simp
next
  case (2 ap c cs)
  show ?case
  proof (cases "ap_count ap = maxcount ap")
    case True
    have "ap_list ap = ap_list ap @ take 0 (c # cs)" by simp
    with True show ?thesis by (metis cap_app.simps(2))
  next
    case False
    let ?ap = "ap\<lparr>ap_list := ap_list ap @ [c], ap_count := ap_count ap + 1\<rparr>"
    from "2.IH" [OF False] obtain m where "ap_list (cap_app ?ap cs) = ap_list ?ap @ take m cs"
      by blast
    then have "ap_list (cap_app ap (c # cs)) = ap_list ap @ take (Suc m) (c # cs)"
      using False by simp
    then show ?thesis by blast
  qed
qed

lemma cap_app_all:
  "ap_count ap = int (length (ap_list ap)) \<Longrightarrow>
   int (length (ap_list ap) + length cs) \<le> maxcount ap \<Longrightarrow>
     ap_list (cap_app ap cs) = ap_list ap @ cs"
  by (induction ap cs rule: cap_app.induct) auto

subsection \<open>The loop over the members of a sector\<close>

lemma area_scan_None: "area_scan ents None ap = Some (ap, False)"
  by (subst area_scan.simps) simp

lemma area_scan_Some:
  assumes "x < length ents"
  shows "area_scan ents (Some x) ap =
     (if \<not> overlaps (ents ! x) (ap_mins ap) (ap_maxs ap)
        then area_scan ents (nextEntityInWorldSector (ents ! x)) ap
      else if ap_count ap = maxcount ap then Some (ap, True)
      else area_scan ents (nextEntityInWorldSector (ents ! x))
             (ap\<lparr>ap_list := ap_list ap @ [x], ap_count := ap_count ap + 1\<rparr>))"
  using assms by (subst area_scan.simps) (auto simp: Let_def overlaps_def)

lemma area_scan_chain:
  assumes "chain ents p xs"
  shows "\<exists>r. area_scan ents p ap =
            Some (cap_app ap (filter (\<lambda>c. overlaps (ents ! c) (ap_mins ap) (ap_maxs ap)) xs), r) \<and>
          (r \<longrightarrow> ap_count (cap_app ap
              (filter (\<lambda>c. overlaps (ents ! c) (ap_mins ap) (ap_maxs ap)) xs)) = maxcount ap)"
  using assms
proof (induction xs arbitrary: p ap)
  case Nil
  then show ?case
    by (auto simp: area_scan_None)
next
  case (Cons x xs)
  then have p: "p = Some x" and x: "x < length ents"
    and c: "chain ents (nextEntityInWorldSector (ents ! x)) xs"
    by simp_all
  show ?case
  proof (cases "overlaps (ents ! x) (ap_mins ap) (ap_maxs ap)")
    case False
    from Cons.IH [OF c, of ap] False show ?thesis
      unfolding p area_scan_Some [OF x] by simp
  next
    case True
    show ?thesis
    proof (cases "ap_count ap = maxcount ap")
      case full: True
      with True show ?thesis
        unfolding p area_scan_Some [OF x] by auto
    next
      case False
      let ?ap = "ap\<lparr>ap_list := ap_list ap @ [x], ap_count := ap_count ap + 1\<rparr>"
      from Cons.IH [OF c, of ?ap] True False show ?thesis
        unfolding p area_scan_Some [OF x] by simp
    qed
  qed
qed


declare power_Suc [simp del]

lemma pow2_pos: "(1::nat) \<le> 2 ^ Suc k"
  by simp

lemma pow2_Suc': "(2::nat) ^ Suc (Suc k) = 2 ^ Suc k + 2 ^ Suc k"
  by (simp add: power_Suc)

subsection \<open>The sectors that a query walks through\<close>

lemma visited_range:
  "x \<in> set (visited k secs mins maxs n) \<Longrightarrow> n \<le> x \<and> x < n + 2 ^ Suc k - 1"
proof (induction k arbitrary: n)
  case 0
  then show ?case by (simp add: power_Suc)
next
  case (Suc k)
  define m :: nat where "m = 2 ^ Suc k"
  have p: "1 \<le> m" unfolding m_def by (rule pow2_pos)
  from Suc.prems consider "x = n"
    | "x \<in> set (visited k secs mins maxs (n + 1))"
    | "x \<in> set (visited k secs mins maxs (n + m))"
    unfolding m_def by (auto split: if_splits)
  then show ?case
  proof cases
    case 1
    then show ?thesis using p unfolding pow2_Suc' m_def [symmetric] by simp
  next
    case 2
    from Suc.IH [OF this] show ?thesis using p unfolding pow2_Suc' m_def [symmetric] by auto
  next
    case 3
    from Suc.IH [OF this] show ?thesis using p unfolding pow2_Suc' m_def [symmetric] by auto
  qed
qed

lemma visited_distinct: "distinct (visited k secs mins maxs n)"
proof (induction k arbitrary: n)
  case 0
  then show ?case by simp
next
  case (Suc k)
  define m :: nat where "m = 2 ^ Suc k"
  have p: "1 \<le> m" unfolding m_def by (rule pow2_pos)
  have a: "n \<notin> set (visited k secs mins maxs (n + 1))"
    using visited_range [of n k secs mins maxs "n + 1"] by auto
  have b: "n \<notin> set (visited k secs mins maxs (n + m))"
    using visited_range [of n k secs mins maxs "n + m"] p by auto
  have c: "set (visited k secs mins maxs (n + 1)) \<inter>
           set (visited k secs mins maxs (n + m)) = {}"
  proof -
    have False if "x \<in> set (visited k secs mins maxs (n + 1))"
      "x \<in> set (visited k secs mins maxs (n + m))" for x
      using visited_range [OF that(1)] visited_range [OF that(2)] p
      unfolding m_def [symmetric] by simp
    then show ?thesis by blast
  qed
  show ?case
    using a b c Suc.IH unfolding visited.simps m_def [symmetric] by simp
qed

subsection \<open>The descent of SV\_LinkEntity\<close>

lemma link_descend_leaf:
  "sector_shape 0 secs n \<Longrightarrow> link_descend secs absmin absmax n = Some n"
  by (subst link_descend.simps) simp

lemma link_descend_node:
  assumes "sector_shape (Suc k) secs n"
  shows "link_descend secs absmin absmax n =
     (if vnth absmin (nat (axis (secs ! n))) > dist (secs ! n)
        then link_descend secs absmin absmax (n + 1)
      else if vnth absmax (nat (axis (secs ! n))) < dist (secs ! n)
        then link_descend secs absmin absmax (n + 2 ^ Suc k)
      else Some n)"
  using assms by (subst link_descend.simps) auto

lemma link_descend_total:
  "sector_shape k secs n \<Longrightarrow>
     \<exists>t. link_descend secs absmin absmax n = Some t \<and> n \<le> t \<and> t < n + 2 ^ Suc k - 1"
proof (induction k arbitrary: n)
  case 0
  then show ?case by (simp add: link_descend_leaf power_Suc)
next
  case (Suc k)
  define m :: nat where "m = 2 ^ Suc k"
  have p: "1 \<le> m" unfolding m_def by (rule pow2_pos)
  from Suc.prems have l: "sector_shape k secs (n + 1)"
    and r: "sector_shape k secs (n + m)"
    unfolding m_def by simp_all
  from Suc.IH [OF l] obtain t1 where
    t1: "link_descend secs absmin absmax (n + 1) = Some t1" "n + 1 \<le> t1"
      "t1 < n + 1 + m - 1"
    unfolding m_def by blast
  from Suc.IH [OF r] obtain t2 where
    t2: "link_descend secs absmin absmax (n + m) = Some t2" "n + m \<le> t2"
      "t2 < n + m + m - 1"
    unfolding m_def by blast
  show ?case
    unfolding link_descend_node [OF Suc.prems] pow2_Suc' m_def [symmetric]
    using t1 t2 p by auto
qed

lemma overlaps_axis:
  assumes "overlaps e mins maxs" "a = 0 \<or> a = 1"
  shows "vnth (r_absmin e) (nat a) \<le> vnth maxs (nat a)"
    and "vnth mins (nat a) \<le> vnth (r_absmax e) (nat a)"
  using assms by (auto simp: overlaps_def)

lemma link_descend_visited:
  assumes "sector_shape k secs n"
    and "link_descend secs (r_absmin e) (r_absmax e) n = Some t"
    and "overlaps e mins maxs"
  shows "t \<in> set (visited k secs mins maxs n)"
  using assms(1,2)
proof (induction k arbitrary: n)
  case 0
  then show ?case by (simp add: link_descend_leaf)
next
  case (Suc k)
  from Suc.prems(1) have l: "sector_shape k secs (n + 1)"
    and r: "sector_shape k secs (n + 2 ^ Suc k)"
    and ax: "axis (secs ! n) = 0 \<or> axis (secs ! n) = 1"
    by simp_all
  note ov = overlaps_axis [OF assms(3) ax]
  show ?case
  proof (cases "vnth (r_absmin e) (nat (axis (secs ! n))) > dist (secs ! n)")
    case True
    with Suc.prems(2) have "link_descend secs (r_absmin e) (r_absmax e) (n + 1) = Some t"
      unfolding link_descend_node [OF Suc.prems(1)] by simp
    from Suc.IH [OF l this] True ov(1) show ?thesis by simp
  next
    case False
    show ?thesis
    proof (cases "vnth (r_absmax e) (nat (axis (secs ! n))) < dist (secs ! n)")
      case True
      with False Suc.prems(2)
      have "link_descend secs (r_absmin e) (r_absmax e) (n + 2 ^ Suc k) = Some t"
        unfolding link_descend_node [OF Suc.prems(1)] by simp
      from Suc.IH [OF r this] True ov(2) show ?thesis by simp
    next
      case nr: False
      with False Suc.prems(2) have "t = n"
        unfolding link_descend_node [OF Suc.prems(1)] by simp
      then show ?thesis by simp
    qed
  qed
qed


subsection \<open>The walk of SV\_AreaEntities\_r\<close>

lemma area_r_step:
  assumes "n < length (sv_worldSectors w)"
    and "area_scan (svEntities w) (entities (sv_worldSectors w ! n)) ap = Some (ap1, r)"
  shows "SV_AreaEntities_r w n ap =
     (if r then Some ap1
      else if axis (sv_worldSectors w ! n) = - 1 then Some ap1
      else if axis (sv_worldSectors w ! n) < 0 \<or> 2 < axis (sv_worldSectors w ! n) then None
      else
        (if vnth (ap_maxs ap1) (nat (axis (sv_worldSectors w ! n))) > dist (sv_worldSectors w ! n)
         then (case children0 (sv_worldSectors w ! n) of
                 None \<Rightarrow> None | Some c \<Rightarrow> SV_AreaEntities_r w c ap1)
         else Some ap1) \<bind>
        (\<lambda>ap2. if vnth (ap_mins ap2) (nat (axis (sv_worldSectors w ! n)))
                     < dist (sv_worldSectors w ! n)
                then (case children1 (sv_worldSectors w ! n) of
                        None \<Rightarrow> None | Some c \<Rightarrow> SV_AreaEntities_r w c ap2)
                else Some ap2))"
  by (subst SV_AreaEntities_r.simps) (simp add: assms)

lemma area_r_walk:
  assumes "sector_shape k (sv_worldSectors w) n"
    and "\<And>j. n \<le> j \<Longrightarrow> j < n + 2 ^ Suc k - 1 \<Longrightarrow>
           chain (svEntities w) (entities (sv_worldSectors w ! j)) (M j)"
  shows "SV_AreaEntities_r w n ap =
     Some (cap_app ap
       (filter (\<lambda>c. overlaps (svEntities w ! c) (ap_mins ap) (ap_maxs ap))
         (concat (map M (visited k (sv_worldSectors w) (ap_mins ap) (ap_maxs ap) n)))))"
  using assms
proof (induction k arbitrary: n ap)
  case 0
  let ?F = "filter (\<lambda>c. overlaps (svEntities w ! c) (ap_mins ap) (ap_maxs ap))"
  have n: "n < length (sv_worldSectors w)" and ax: "axis (sv_worldSectors w ! n) = - 1"
    using "0.prems"(1) by simp_all
  have "chain (svEntities w) (entities (sv_worldSectors w ! n)) (M n)"
    by (rule "0.prems"(2)) (simp_all add: power_Suc)
  from area_scan_chain [OF this, of ap] obtain r where
    "area_scan (svEntities w) (entities (sv_worldSectors w ! n)) ap = Some (cap_app ap (?F (M n)), r)"
    by blast
  from area_r_step [OF n this] ax show ?case by simp
next
  case (Suc k)
  let ?secs = "sv_worldSectors w"
  let ?F = "filter (\<lambda>c. overlaps (svEntities w ! c) (ap_mins ap) (ap_maxs ap))"
  define m :: nat where "m = 2 ^ Suc k"
  have p: "1 \<le> m" unfolding m_def by (rule pow2_pos)
  have n: "n < length ?secs" and ax: "axis (?secs ! n) = 0 \<or> axis (?secs ! n) = 1"
    and c0: "children0 (?secs ! n) = Some (n + 1)"
    and c1: "children1 (?secs ! n) = Some (n + m)"
    and l: "sector_shape k ?secs (n + 1)" and r: "sector_shape k ?secs (n + m)"
    using Suc.prems(1) unfolding m_def by simp_all
  have ch: "chain (svEntities w) (entities (?secs ! j)) (M j)"
    if "n \<le> j" "j < n + (m + m) - 1" for j
    using Suc.prems(2) [of j] that unfolding pow2_Suc' m_def by blast
  have chl: "chain (svEntities w) (entities (?secs ! j)) (M j)"
    if "n + 1 \<le> j" "j < n + 1 + 2 ^ Suc k - 1" for j
    using that p unfolding m_def [symmetric] by (intro ch) simp_all
  have chr: "chain (svEntities w) (entities (?secs ! j)) (M j)"
    if "n + m \<le> j" "j < n + m + 2 ^ Suc k - 1" for j
    using that p unfolding m_def [symmetric] by (intro ch) simp_all
  define L where "L = (if vnth (ap_maxs ap) (nat (axis (?secs ! n))) > dist (?secs ! n)
     then visited k ?secs (ap_mins ap) (ap_maxs ap) (n + 1) else [])"
  define R where "R = (if vnth (ap_mins ap) (nat (axis (?secs ! n))) < dist (?secs ! n)
     then visited k ?secs (ap_mins ap) (ap_maxs ap) (n + m) else [])"
  have vis: "visited (Suc k) ?secs (ap_mins ap) (ap_maxs ap) n = n # L @ R"
    by (simp add: L_def R_def m_def)
  have "chain (svEntities w) (entities (?secs ! n)) (M n)"
    using p by (intro ch) simp_all
  from area_scan_chain [OF this, of ap] obtain ret where
    sc: "area_scan (svEntities w) (entities (?secs ! n)) ap = Some (cap_app ap (?F (M n)), ret)"
    and full: "ret \<Longrightarrow> ap_count (cap_app ap (?F (M n))) = maxcount ap"
    by blast
  define ap1 where "ap1 = cap_app ap (?F (M n))"
  have goal: "cap_app ap (?F (concat (map M (n # L @ R)))) =
      cap_app (cap_app ap1 (?F (concat (map M L)))) (?F (concat (map M R)))"
    by (simp add: ap1_def cap_app_append)
  show ?case
  proof (cases ret)
    case True
    then have "ap_count ap1 = maxcount ap1"
      using full by (simp add: ap1_def)
    then have "cap_app (cap_app ap1 (?F (concat (map M L)))) (?F (concat (map M R))) = ap1"
      by (simp add: cap_app_full)
    with area_r_step [OF n sc] True show ?thesis
      unfolding vis goal by (simp add: ap1_def)
  next
    case False
    have ihl: "SV_AreaEntities_r w (n + 1) ap1 =
        Some (cap_app ap1 (?F (concat (map M (visited k ?secs (ap_mins ap) (ap_maxs ap) (n + 1))))))"
      using Suc.IH [OF l chl, of ap1] by (simp add: ap1_def)
    define ap2 where "ap2 = cap_app ap1 (?F (concat (map M L)))"
    have first: "(if vnth (ap_maxs ap1) (nat (axis (?secs ! n))) > dist (?secs ! n)
         then (case children0 (?secs ! n) of
                 None \<Rightarrow> None | Some c \<Rightarrow> SV_AreaEntities_r w c ap1)
         else Some ap1) = Some ap2"
      using ihl by (simp add: c0 ap2_def L_def ap1_def)
    have ihr: "SV_AreaEntities_r w (n + m) ap2 =
        Some (cap_app ap2 (?F (concat (map M (visited k ?secs (ap_mins ap) (ap_maxs ap) (n + m))))))"
      using Suc.IH [OF r chr, of ap2] by (simp add: ap2_def ap1_def)
    have second: "(if vnth (ap_mins ap2) (nat (axis (?secs ! n))) < dist (?secs ! n)
                then (case children1 (?secs ! n) of
                        None \<Rightarrow> None | Some c \<Rightarrow> SV_AreaEntities_r w c ap2)
                else Some ap2) = Some (cap_app ap2 (?F (concat (map M R))))"
      using ihr by (simp add: c1 R_def ap2_def ap1_def)
    have "SV_AreaEntities_r w n ap = Some (cap_app ap2 (?F (concat (map M R))))"
      unfolding area_r_step [OF n sc] using False ax
      by (simp only: ap1_def [symmetric] first) (auto simp: second)
    then show ?thesis
      unfolding vis goal by (simp add: ap2_def)
  qed
qed


subsection \<open>The result of SV\_AreaEntities\<close>

lemma distinct_concat_map:
  assumes "distinct vs"
    and "\<And>j. j \<in> set vs \<Longrightarrow> distinct (M j)"
    and "\<And>i j. i \<in> set vs \<Longrightarrow> j \<in> set vs \<Longrightarrow> i \<noteq> j \<Longrightarrow> set (M i) \<inter> set (M j) = {}"
  shows "distinct (concat (map M vs))"
  using assms
proof (induction vs)
  case Nil
  then show ?case by simp
next
  case (Cons v vs)
  have "distinct (concat (map M vs))"
    using Cons.prems by (intro Cons.IH) auto
  moreover have "distinct (M v)"
    using Cons.prems(2) by simp
  moreover have "set (M v) \<inter> set (concat (map M vs)) = {}"
  proof -
    have "set (M v) \<inter> set (M j) = {}" if "j \<in> set vs" for j
      using Cons.prems(1) Cons.prems(3) [of v j] that by auto
    then show ?thesis by auto
  qed
  ultimately show ?case by simp
qed

lemma world_inv_members:
  assumes "world_inv w"
  obtains M where
    "\<And>n. n < 2 ^ Suc AREA_DEPTH - 1 \<Longrightarrow>
       chain (svEntities w) (entities (sv_worldSectors w ! n)) (M n)"
    "\<And>n. n < 2 ^ Suc AREA_DEPTH - 1 \<Longrightarrow> distinct (M n)"
    "\<And>n. n < 2 ^ Suc AREA_DEPTH - 1 \<Longrightarrow>
       set (M n) = {e. e < length (svEntities w) \<and> worldSector (svEntities w ! e) = Some n}"
proof -
  from assms have "\<forall>n. \<exists>xs. n < 2 ^ Suc AREA_DEPTH - 1 \<longrightarrow>
      chain (svEntities w) (entities (sv_worldSectors w ! n)) xs \<and> distinct xs \<and>
      set xs = {e. e < length (svEntities w) \<and> worldSector (svEntities w ! e) = Some n}"
    unfolding world_inv_def by blast
  from choice [OF this] obtain M where "\<forall>n. n < 2 ^ Suc AREA_DEPTH - 1 \<longrightarrow>
      chain (svEntities w) (entities (sv_worldSectors w ! n)) (M n) \<and> distinct (M n) \<and>
      set (M n) = {e. e < length (svEntities w) \<and> worldSector (svEntities w ! e) = Some n}"
    ..
  with that show ?thesis by blast
qed

lemma area_entities_result:
  assumes inv: "world_inv w"
  obtains FL where
    "SV_AreaEntities w mins maxs maxcount' =
       Some (cap_app \<lparr>ap_mins = mins, ap_maxs = maxs, ap_list = [], ap_count = 0,
                      maxcount = maxcount'\<rparr> FL)"
    "distinct FL" "set FL = linked_overlapping w mins maxs"
proof -
  let ?N = "2 ^ Suc AREA_DEPTH - 1 :: nat"
  let ?secs = "sv_worldSectors w"
  let ?ents = "svEntities w"
  let ?init = "\<lparr>ap_mins = mins, ap_maxs = maxs, ap_list = [], ap_count = 0,
                maxcount = maxcount'\<rparr>"
  from inv have shape: "sector_shape AREA_DEPTH ?secs 0"
    and place: "\<And>e n. e < length ?ents \<Longrightarrow> worldSector (?ents ! e) = Some n \<Longrightarrow>
        n < ?N \<and> link_descend ?secs (r_absmin (?ents ! e)) (r_absmax (?ents ! e)) 0 = Some n"
    unfolding world_inv_def by blast+
  from world_inv_members [OF inv] obtain M where
    ch: "\<And>n. n < ?N \<Longrightarrow> chain ?ents (entities (?secs ! n)) (M n)"
    and di: "\<And>n. n < ?N \<Longrightarrow> distinct (M n)"
    and se: "\<And>n. n < ?N \<Longrightarrow>
       set (M n) = {e. e < length ?ents \<and> worldSector (?ents ! e) = Some n}"
    by blast
  define V where "V = visited AREA_DEPTH ?secs mins maxs 0"
  define FL where "FL = filter (\<lambda>c. overlaps (?ents ! c) mins maxs) (concat (map M V))"
  have Vr: "j < ?N" if "j \<in> set V" for j
    using visited_range [OF that [unfolded V_def]] by simp
  have "SV_AreaEntities_r w 0 ?init =
      Some (cap_app ?init
        (filter (\<lambda>c. overlaps (?ents ! c) (ap_mins ?init) (ap_maxs ?init))
          (concat (map M (visited AREA_DEPTH ?secs (ap_mins ?init) (ap_maxs ?init) 0)))))"
  proof (rule area_r_walk [OF shape])
    fix j :: nat assume "j < 0 + 2 ^ Suc AREA_DEPTH - 1"
    then show "chain ?ents (entities (?secs ! j)) (M j)"
      by (intro ch) simp
  qed
  then have "SV_AreaEntities_r w 0 ?init = Some (cap_app ?init FL)"
    by (simp add: FL_def V_def)
  then have res: "SV_AreaEntities w mins maxs maxcount' = Some (cap_app ?init FL)"
    by (simp add: SV_AreaEntities_def)
  have "distinct (concat (map M V))"
  proof (rule distinct_concat_map)
    show "distinct V" unfolding V_def by (rule visited_distinct)
    show "distinct (M j)" if "j \<in> set V" for j
      using di Vr that by blast
    show "set (M i) \<inter> set (M j) = {}" if "i \<in> set V" "j \<in> set V" "i \<noteq> j" for i j
      unfolding se [OF Vr [OF that(1)]] se [OF Vr [OF that(2)]] using that(3) by auto
  qed
  then have dFL: "distinct FL"
    by (simp add: FL_def)
  have "set FL = linked_overlapping w mins maxs"
  proof (intro set_eqI iffI)
    fix e assume "e \<in> set FL"
    then obtain j where j: "j \<in> set V" and e: "e \<in> set (M j)"
      and ov: "overlaps (?ents ! e) mins maxs"
      by (auto simp: FL_def)
    from e have "e < length ?ents" "worldSector (?ents ! e) = Some j"
      unfolding se [OF Vr [OF j]] by simp_all
    with ov show "e \<in> linked_overlapping w mins maxs"
      by (simp add: linked_overlapping_def)
  next
    fix e assume "e \<in> linked_overlapping w mins maxs"
    then obtain n where e: "e < length ?ents" and n: "worldSector (?ents ! e) = Some n"
      and ov: "overlaps (?ents ! e) mins maxs"
      by (auto simp: linked_overlapping_def)
    from place [OF e n] have nN: "n < ?N"
      and d: "link_descend ?secs (r_absmin (?ents ! e)) (r_absmax (?ents ! e)) 0 = Some n"
      by simp_all
    have "n \<in> set V"
      unfolding V_def by (rule link_descend_visited [OF shape d ov])
    moreover have "e \<in> set (M n)"
      unfolding se [OF nN] using e n by simp
    ultimately show "e \<in> set FL"
      using ov by (auto simp: FL_def)
  qed
  with res dFL that show ?thesis by blast
qed

text \<open>
  In a world with the invariant \<^verbatim>\<open>SV_AreaEntities\<close> returns. The list holds linked
  entities whose bounds meet the box, each once, and the count is its length. When
  \<open>maxcount\<close> is not negative the count does not exceed it. When the number of linked
  entities whose bounds meet the box is at most \<open>maxcount\<close>, the list holds all of
  them.
\<close>

lemma area_entities_inv:
  assumes "world_inv w"
  shows "\<exists>ap. SV_AreaEntities w mins maxs maxcount' = Some ap \<and>
           ap_count ap = int (length (ap_list ap)) \<and>
           distinct (ap_list ap) \<and>
           set (ap_list ap) \<subseteq> linked_overlapping w mins maxs \<and>
           (0 \<le> maxcount' \<longrightarrow> ap_count ap \<le> maxcount') \<and>
           (int (card (linked_overlapping w mins maxs)) \<le> maxcount' \<longrightarrow>
              set (ap_list ap) = linked_overlapping w mins maxs)"
proof -
  let ?init = "\<lparr>ap_mins = mins, ap_maxs = maxs, ap_list = [], ap_count = 0,
                maxcount = maxcount'\<rparr>"
  from area_entities_result [OF assms, of mins maxs maxcount'] obtain FL where
    res: "SV_AreaEntities w mins maxs maxcount' = Some (cap_app ?init FL)"
    and d: "distinct FL" and s: "set FL = linked_overlapping w mins maxs"
    by blast
  let ?ap = "cap_app ?init FL"
  have cnt: "ap_count ?ap = int (length (ap_list ?ap))"
    by (rule cap_app_count) simp
  from cap_app_take [of ?init FL] obtain m where m: "ap_list ?ap = take m FL"
    by auto
  have dis: "distinct (ap_list ?ap)"
    unfolding m using d by simp
  have sub: "set (ap_list ?ap) \<subseteq> linked_overlapping w mins maxs"
    unfolding m s [symmetric] by (rule set_take_subset)
  have le: "ap_count ?ap \<le> maxcount'" if "0 \<le> maxcount'"
    using cap_app_le [of ?init FL] that by simp
  have all: "set (ap_list ?ap) = linked_overlapping w mins maxs"
    if "int (card (linked_overlapping w mins maxs)) \<le> maxcount'"
  proof -
    have "card (linked_overlapping w mins maxs) = length FL"
      unfolding s [symmetric] using d by (rule distinct_card)
    with that have "ap_list ?ap = ap_list ?init @ FL"
      by (intro cap_app_all) simp_all
    then show ?thesis by (simp add: s)
  qed
  show ?thesis
    using res cnt dis sub le all by blast
qed


section \<open>Linked worlds are what the code produces\<close>

subsection \<open>Chains and sectors under updates\<close>

lemma chain_cong:
  assumes "length ents' = length ents"
    and "\<And>x. x \<in> set xs \<Longrightarrow>
           nextEntityInWorldSector (ents' ! x) = nextEntityInWorldSector (ents ! x)"
  shows "chain ents' p xs = chain ents p xs"
  using assms(2)
proof (induction xs arbitrary: p)
  case Nil
  then show ?case by simp
next
  case (Cons x xs)
  then show ?case by (simp add: assms(1))
qed

lemma chain_last_None:
  "chain ents p xs \<Longrightarrow> x \<in> set xs \<Longrightarrow> x < length ents"
  by (induction xs arbitrary: p) auto

lemma shape_upd:
  "sector_shape k (secs[i := (secs ! i)\<lparr>entities := h\<rparr>]) n = sector_shape k secs n"
proof (induction k arbitrary: n)
  case 0
  then show ?case by (cases "n = i") (auto simp: nth_list_update)
next
  case (Suc k)
  then show ?case by (cases "n = i") (auto simp: nth_list_update)
qed

lemma descend_upd:
  assumes "sector_shape k secs n"
  shows "link_descend (secs[i := (secs ! i)\<lparr>entities := h\<rparr>]) absmin absmax n =
         link_descend secs absmin absmax n"
  using assms
proof (induction k arbitrary: n)
  case 0
  then show ?case
    using link_descend_leaf [of secs n] link_descend_leaf [of "secs[i := (secs ! i)\<lparr>entities := h\<rparr>]" n]
    by (simp only: shape_upd)
next
  case (Suc k)
  let ?s = "secs[i := (secs ! i)\<lparr>entities := h\<rparr>]"
  have s': "sector_shape (Suc k) ?s n"
    using Suc.prems by (simp only: shape_upd)
  have l: "sector_shape k secs (n + 1)" and r: "sector_shape k secs (n + 2 ^ Suc k)"
    and n: "n < length secs"
    using Suc.prems by simp_all
  have same: "axis (?s ! n) = axis (secs ! n)" "dist (?s ! n) = dist (secs ! n)"
    using n by (cases "n = i"; simp)+
  show ?case
    unfolding link_descend_node [OF s'] link_descend_node [OF Suc.prems] same
    using Suc.IH [OF l] Suc.IH [OF r] by simp
qed

lemma tree_shape:
  "is_sector_tree k secs mins maxs n \<Longrightarrow> sector_shape k secs n"
proof (induction k arbitrary: mins maxs n)
  case 0
  then show ?case by simp
next
  case (Suc k)
  from Suc.prems obtain m a d where m: "m = 2 ^ Suc k"
    and a: "a = (if f32 (vnth maxs 0 - vnth mins 0) > f32 (vnth maxs 1 - vnth mins 1) then 0 else 1)"
    and n: "n < length secs" "axis (secs ! n) = int a"
       "children0 (secs ! n) = Some (n + 1)" "children1 (secs ! n) = Some (n + m)"
    and l: "is_sector_tree k secs (vset mins a d) maxs (n + 1)"
    and r: "is_sector_tree k secs mins (vset maxs a d) (n + m)"
    unfolding is_sector_tree_Suc by blast
  have "axis (secs ! n) = 0 \<or> axis (secs ! n) = 1"
    using n(2) a by auto
  with n Suc.IH [OF l] Suc.IH [OF r] show ?case
    unfolding m by simp
qed

subsection \<open>SV\_ClearWorld\<close>

text \<open>
  \<^verbatim>\<open>SV_ClearWorld\<close> of a world with no linked entity returns a linked world.
\<close>

lemma clear_world_inv:
  assumes "\<And>e. e < length (svEntities w) \<Longrightarrow> worldSector (svEntities w ! e) = None"
  shows "\<exists>w'. SV_ClearWorld mins maxs w = Some w' \<and> world_inv w' \<and>
           svEntities w' = svEntities w"
proof -
  from clear_world [of mins maxs] obtain secs where
    c: "SV_CreateworldSector 0 mins maxs (replicate AREA_NODES zero_sector, 0) = Some (0, secs, 31)"
    and e: "\<And>i. entities (secs ! i) = entities (replicate AREA_NODES zero_sector ! i)"
    and t: "is_sector_tree AREA_DEPTH secs mins maxs 0"
    by blast
  let ?w = "w\<lparr>sv_worldSectors := secs, sv_numworldSectors := 31\<rparr>"
  have cw: "SV_ClearWorld mins maxs w = Some ?w"
    by (simp add: SV_ClearWorld_def c)
  have en: "entities (secs ! n) = None" if "n < 2 ^ Suc AREA_DEPTH - 1" for n
    using that unfolding e by (simp add: AREA_DEPTH_def AREA_NODES_def zero_sector_def)
  have "world_inv ?w"
    unfolding world_inv_def
  proof (intro conjI allI impI)
    show "sector_shape AREA_DEPTH (sv_worldSectors ?w) 0"
      using tree_shape [OF t] by simp
  next
    fix n :: nat assume "n < 2 ^ Suc AREA_DEPTH - 1"
    then have "chain (svEntities ?w) (entities (sv_worldSectors ?w ! n)) [] \<and> distinct [] \<and>
        set [] = {e. e < length (svEntities ?w) \<and> worldSector (svEntities ?w ! e) = Some n}"
      using en assms by auto
    then show "\<exists>xs. chain (svEntities ?w) (entities (sv_worldSectors ?w ! n)) xs \<and> distinct xs \<and>
        set xs = {e. e < length (svEntities ?w) \<and> worldSector (svEntities ?w ! e) = Some n}"
      by blast
  next
    fix e n assume "e < length (svEntities ?w)" "worldSector (svEntities ?w ! e) = Some n"
    with assms [of e] have False by simp
    then show "n < 2 ^ Suc AREA_DEPTH - 1" 
      and "link_descend (sv_worldSectors ?w) (r_absmin (svEntities ?w ! e))
          (r_absmax (svEntities ?w ! e)) 0 = Some n"
      by simp_all
  qed
  with cw show ?thesis by simp
qed


subsection \<open>Changes of an entity that keep a world linked\<close>

lemma shape_length:
  "sector_shape k secs n \<Longrightarrow> n + 2 ^ Suc k - 1 \<le> length secs"
proof (induction k arbitrary: n)
  case 0
  then show ?case by (simp add: power_Suc)
next
  case (Suc k)
  define m :: nat where "m = 2 ^ Suc k"
  from Suc.prems have "sector_shape k secs (n + m)"
    unfolding m_def by simp
  from Suc.IH [OF this] show ?case
    unfolding pow2_Suc' m_def [symmetric] by simp
qed

text \<open>
  Any change of an entity that keeps its two link fields, and its absolute bounds while it
  is linked, keeps the world linked: the game may move an entity or change its contents
  between two calls.
\<close>

lemma world_inv_entity:
  assumes inv: "world_inv w" and e: "e < length (svEntities w)"
    and ws: "worldSector e' = worldSector (svEntities w ! e)"
    and nx: "nextEntityInWorldSector e' = nextEntityInWorldSector (svEntities w ! e)"
    and ab: "worldSector (svEntities w ! e) \<noteq> None \<Longrightarrow>
               r_absmin e' = r_absmin (svEntities w ! e) \<and>
               r_absmax e' = r_absmax (svEntities w ! e)"
  shows "world_inv (w\<lparr>svEntities := (svEntities w)[e := e']\<rparr>)"
proof -
  let ?ents = "svEntities w"
  let ?ents' = "?ents[e := e']"
  have wsf: "worldSector (?ents' ! i) = worldSector (?ents ! i)" for i
    using e ws by (cases "i = e") simp_all
  have nxf: "nextEntityInWorldSector (?ents' ! i) = nextEntityInWorldSector (?ents ! i)" for i
    using e nx by (cases "i = e") simp_all
  have abf: "r_absmin (?ents' ! i) = r_absmin (?ents ! i) \<and>
             r_absmax (?ents' ! i) = r_absmax (?ents ! i)"
    if "worldSector (?ents ! i) \<noteq> None" for i
    using e ab that by (cases "i = e") simp_all
  have ch: "chain ?ents' p xs = chain ?ents p xs" for p xs
    by (rule chain_cong) (simp_all add: nxf)
  show ?thesis
    using inv unfolding world_inv_def
    by (simp add: wsf ch) (metis abf option.distinct(1))
qed

subsection \<open>SV\_UnlinkEntity\<close>

lemma unlink_scan_None: "unlink_scan ents ent None = Some (ents, True)"
  by (subst unlink_scan.simps) simp

lemma unlink_scan_Some:
  assumes "sc < length ents"
  shows "unlink_scan ents ent (Some sc) =
     (if nextEntityInWorldSector (ents ! sc) = Some ent then
        Some (ents[sc := (ents ! sc)
                \<lparr>nextEntityInWorldSector := nextEntityInWorldSector (ents ! ent)\<rparr>], False)
      else unlink_scan ents ent (nextEntityInWorldSector (ents ! sc)))"
  using assms by (subst unlink_scan.simps) simp

lemma unlink_scan_chain:
  assumes "chain ents h (pre @ p # e # post)" "e \<notin> set pre" "p \<noteq> e"
  shows "unlink_scan ents e h =
     Some (ents[p := (ents ! p)
             \<lparr>nextEntityInWorldSector := nextEntityInWorldSector (ents ! e)\<rparr>], False)"
  using assms(1,2)
proof (induction pre arbitrary: h)
  case Nil
  then have "h = Some p" "p < length ents" "nextEntityInWorldSector (ents ! p) = Some e"
    by simp_all
  then show ?case
    by (simp add: unlink_scan_Some)
next
  case (Cons q pre)
  then have h: "h = Some q" and q: "q < length ents"
    and c: "chain ents (nextEntityInWorldSector (ents ! q)) (pre @ p # e # post)"
    and ne: "e \<notin> set pre"
    by simp_all
  have "nextEntityInWorldSector (ents ! q) \<noteq> Some e"
  proof (cases pre)
    case Nil
    with c assms(3) show ?thesis by auto
  next
    case (Cons r rs)
    with c ne show ?thesis by auto
  qed
  with Cons.IH [OF c ne] show ?case
    by (simp add: h unlink_scan_Some [OF q])
qed

lemma chain_remove:
  assumes "chain ents h (pre @ p # e # post)" "distinct (pre @ p # e # post)"
  shows "chain (ents[p := (ents ! p)
            \<lparr>nextEntityInWorldSector := nextEntityInWorldSector (ents ! e)\<rparr>])
          h (pre @ p # post)"
  using assms
proof (induction pre arbitrary: h)
  case Nil
  let ?ents = "ents[p := (ents ! p)
      \<lparr>nextEntityInWorldSector := nextEntityInWorldSector (ents ! e)\<rparr>]"
  from Nil have h: "h = Some p" and p: "p < length ents"
    and c: "chain ents (nextEntityInWorldSector (ents ! e)) post"
    and np: "p \<notin> set post"
    by simp_all
  have "chain ?ents (nextEntityInWorldSector (ents ! e)) post =
        chain ents (nextEntityInWorldSector (ents ! e)) post"
  proof (rule chain_cong)
    show "length ?ents = length ents" by simp
    fix x assume "x \<in> set post"
    with np have "p \<noteq> x" by auto
    then show "nextEntityInWorldSector (?ents ! x) = nextEntityInWorldSector (ents ! x)"
      by simp
  qed
  with c h p show ?case by simp
next
  case (Cons q pre)
  then have h: "h = Some q" and q: "q < length ents" and qp: "q \<noteq> p"
    and c: "chain ents (nextEntityInWorldSector (ents ! q)) (pre @ p # e # post)"
    and d: "distinct (pre @ p # e # post)"
    by auto
  from Cons.IH [OF c d] show ?case
    using h q qp by simp
qed


lemma world_invI:
  assumes "sector_shape AREA_DEPTH secs 0"
    and "\<And>n. n < 2 ^ Suc AREA_DEPTH - 1 \<Longrightarrow>
           \<exists>xs. chain ents (entities (secs ! n)) xs \<and> distinct xs \<and>
                set xs = {e. e < length ents \<and> worldSector (ents ! e) = Some n}"
    and "\<And>e n. e < length ents \<Longrightarrow> worldSector (ents ! e) = Some n \<Longrightarrow>
           n < 2 ^ Suc AREA_DEPTH - 1 \<and>
           link_descend secs (r_absmin (ents ! e)) (r_absmax (ents ! e)) 0 = Some n"
    and "sv_worldSectors w = secs" "svEntities w = ents"
  shows "world_inv w"
  unfolding world_inv_def assms(4,5) using assms(1,2,3) by blast

text \<open>
  \<^verbatim>\<open>SV_UnlinkEntity\<close> of an entity of a linked world returns a linked world, without
  the warning, and the entity is in no sector.
\<close>

lemma unlink_inv:
  assumes inv: "world_inv w" and e: "e < length (svEntities w)"
  shows "\<exists>w'. SV_UnlinkEntity e w = Some (w', False) \<and> world_inv w' \<and>
           length (svEntities w') = length (svEntities w) \<and>
           svEntities w' ! e = (svEntities w ! e)\<lparr>r_linked := False, worldSector := None\<rparr>"
proof (cases "worldSector (svEntities w ! e)")
  case None
  let ?e' = "(svEntities w ! e)\<lparr>r_linked := False\<rparr>"
  have "world_inv (w\<lparr>svEntities := (svEntities w)[e := ?e']\<rparr>)"
    by (rule world_inv_entity [OF inv e]) simp_all
  moreover have "?e' = (svEntities w ! e)\<lparr>r_linked := False, worldSector := None\<rparr>"
    using None by (cases "svEntities w ! e") simp
  ultimately show ?thesis
    unfolding unlink_unlinked [OF e None] using e by simp
next
  case (Some ws)
  let ?N = "2 ^ Suc AREA_DEPTH - 1 :: nat"
  let ?secs = "sv_worldSectors w"
  let ?ents = "svEntities w"
  from inv have shape: "sector_shape AREA_DEPTH ?secs 0"
    and place: "\<And>i n. i < length ?ents \<Longrightarrow> worldSector (?ents ! i) = Some n \<Longrightarrow>
        n < ?N \<and> link_descend ?secs (r_absmin (?ents ! i)) (r_absmax (?ents ! i)) 0 = Some n"
    unfolding world_inv_def by blast+
  from world_inv_members [OF inv] obtain M where
    ch: "\<And>n. n < ?N \<Longrightarrow> chain ?ents (entities (?secs ! n)) (M n)"
    and di: "\<And>n. n < ?N \<Longrightarrow> distinct (M n)"
    and se: "\<And>n. n < ?N \<Longrightarrow>
       set (M n) = {i. i < length ?ents \<and> worldSector (?ents ! i) = Some n}"
    by blast
  have wsN: "ws < ?N" using place [OF e Some] by simp
  have "?N \<le> length ?secs" using shape_length [OF shape] by simp
  with wsN have wsl: "ws < length ?secs" by simp
  have eM: "e \<in> set (M ws)" unfolding se [OF wsN] using e Some by simp
  define ents2 where "ents2 = ?ents[e := (?ents ! e)\<lparr>r_linked := False, worldSector := None\<rparr>]"
  have len2: "length ents2 = length ?ents" by (simp add: ents2_def)
  have nx2: "nextEntityInWorldSector (ents2 ! i) = nextEntityInWorldSector (?ents ! i)" for i
    using e by (cases "i = e") (simp_all add: ents2_def)
  have ab2: "r_absmin (ents2 ! i) = r_absmin (?ents ! i)"
    "r_absmax (ents2 ! i) = r_absmax (?ents ! i)" for i
    using e by (cases "i = e"; simp add: ents2_def)+
  have ws2: "worldSector (ents2 ! i) = (if i = e then None else worldSector (?ents ! i))" for i
    using e by (simp add: ents2_def)
  have ch2: "chain ents2 p xs = chain ?ents p xs" for p xs
    by (rule chain_cong) (simp_all add: len2 nx2)
  have set2: "{i. i < length ents2 \<and> worldSector (ents2 ! i) = Some n} =
      set (M n) - {e}" if "n < ?N" for n
    unfolding se [OF that] len2 ws2 by auto
  have other: "set (M n) - {e} = set (M n)" if "n < ?N" "n \<noteq> ws" for n
    unfolding se [OF that(1)] using Some that(2) by auto
  have place2: "n < ?N \<and> link_descend ?secs (r_absmin (ents2 ! i)) (r_absmax (ents2 ! i)) 0 = Some n"
    if "i < length ents2" "worldSector (ents2 ! i) = Some n" for i n
  proof -
    from that have "i < length ?ents" "worldSector (?ents ! i) = Some n"
      by (simp_all add: len2 ws2 split: if_splits)
    from place [OF this] show ?thesis by (simp add: ab2)
  qed
  show ?thesis
  proof (cases "entities (?secs ! ws) = Some e")
    case True
    define secs' where
      "secs' = ?secs[ws := (?secs ! ws)\<lparr>entities := nextEntityInWorldSector (?ents ! e)\<rparr>]"
    define w' where "w' = w\<lparr>sv_worldSectors := secs', svEntities := ents2\<rparr>"
    have call: "SV_UnlinkEntity e w = Some (w', False)"
      unfolding unlink_head [OF e Some wsl True] w'_def secs'_def ents2_def ..
    from ch [OF wsN] True obtain xs' where xs: "M ws = e # xs'"
      and cx: "chain ?ents (nextEntityInWorldSector (?ents ! e)) xs'"
      by (cases "M ws") auto
    have dx: "distinct xs'" "e \<notin> set xs'"
      using di [OF wsN] unfolding xs by simp_all
    have "world_inv w'"
    proof (rule world_invI [where secs = secs' and ents = ents2])
      show "sector_shape AREA_DEPTH secs' 0"
        unfolding secs'_def shape_upd by (rule shape)
    next
      fix n :: nat assume n: "n < ?N"
      show "\<exists>xs. chain ents2 (entities (secs' ! n)) xs \<and> distinct xs \<and>
                set xs = {e. e < length ents2 \<and> worldSector (ents2 ! e) = Some n}"
      proof (cases "n = ws")
        case True
        have "entities (secs' ! ws) = nextEntityInWorldSector (?ents ! e)"
          using wsl by (simp add: secs'_def)
        then have "chain ents2 (entities (secs' ! n)) xs'"
          unfolding True ch2 using cx by simp
        moreover have "set xs' = {e. e < length ents2 \<and> worldSector (ents2 ! e) = Some n}"
          unfolding True set2 [OF wsN] xs using dx by auto
        ultimately show ?thesis using dx by blast
      next
        case False
        then have "entities (secs' ! n) = entities (?secs ! n)"
          by (simp add: secs'_def)
        then have "chain ents2 (entities (secs' ! n)) (M n)"
          unfolding ch2 using ch [OF n] by simp
        moreover have "set (M n) = {e. e < length ents2 \<and> worldSector (ents2 ! e) = Some n}"
          unfolding set2 [OF n] other [OF n False] ..
        ultimately show ?thesis using di [OF n] by blast
      qed
    next
      fix i n assume "i < length ents2" "worldSector (ents2 ! i) = Some n"
      from place2 [OF this]
      show "n < ?N \<and> link_descend secs' (r_absmin (ents2 ! i)) (r_absmax (ents2 ! i)) 0 = Some n"
        unfolding secs'_def descend_upd [OF shape] .
    qed (simp_all add: w'_def)
    moreover have "length (svEntities w') = length ?ents"
      "svEntities w' ! e = (?ents ! e)\<lparr>r_linked := False, worldSector := None\<rparr>"
      using e by (simp_all add: w'_def ents2_def)
    ultimately show ?thesis using call by blast
  next
    case False
    from split_list [OF eM] obtain as post where xs0: "M ws = as @ e # post"
      by blast
    have "as \<noteq> []"
    proof
      assume "as = []"
      with xs0 ch [OF wsN] have "entities (?secs ! ws) = Some e" by simp
      with False show False by contradiction
    qed
    then obtain pre p where as: "as = pre @ [p]"
      by (metis rev_exhaust)
    have xs: "M ws = pre @ p # e # post"
      by (simp add: xs0 as)
    have dxs: "distinct (pre @ p # e # post)"
      using di [OF wsN] unfolding xs .
    then have ne: "e \<notin> set pre" "p \<noteq> e"
      by auto
    have pM: "p \<in> set (M ws)" unfolding xs by simp
    then have pl: "p < length ?ents" and pws: "worldSector (?ents ! p) = Some ws"
      unfolding se [OF wsN] by simp_all
    define ents3 where "ents3 = ents2[p := (ents2 ! p)
        \<lparr>nextEntityInWorldSector := nextEntityInWorldSector (ents2 ! e)\<rparr>]"
    define w' where "w' = w\<lparr>svEntities := ents3\<rparr>"
    have c2: "chain ents2 (entities (?secs ! ws)) (pre @ p # e # post)"
      unfolding ch2 using ch [OF wsN] unfolding xs .
    have scan: "unlink_scan ents2 e (entities (?secs ! ws)) = Some (ents3, False)"
      unfolding ents3_def by (rule unlink_scan_chain [OF c2 ne])
    have call: "SV_UnlinkEntity e w = Some (w', False)"
      unfolding unlink_scanned [OF e Some wsl False] ents2_def [symmetric] scan w'_def by simp
    have len3: "length ents3 = length ?ents" by (simp add: ents3_def len2)
    have ws3: "worldSector (ents3 ! i) = worldSector (ents2 ! i)" for i
      using pl by (cases "i = p") (simp_all add: ents3_def len2)
    have ab3: "r_absmin (ents3 ! i) = r_absmin (ents2 ! i)"
      "r_absmax (ents3 ! i) = r_absmax (ents2 ! i)" for i
      using pl by (cases "i = p"; simp add: ents3_def len2)+
    have nx3: "nextEntityInWorldSector (ents3 ! i) = nextEntityInWorldSector (ents2 ! i)"
      if "i \<noteq> p" for i
      using that by (simp add: ents3_def)
    have "world_inv w'"
    proof (rule world_invI [where secs = ?secs and ents = ents3])
      show "sector_shape AREA_DEPTH ?secs 0" by (rule shape)
    next
      fix n :: nat assume n: "n < ?N"
      show "\<exists>xs. chain ents3 (entities (?secs ! n)) xs \<and> distinct xs \<and>
                set xs = {e. e < length ents3 \<and> worldSector (ents3 ! e) = Some n}"
      proof (cases "n = ws")
        case True
        have "chain ents3 (entities (?secs ! n)) (pre @ p # post)"
          unfolding True ents3_def by (rule chain_remove [OF c2 dxs])
        moreover have "distinct (pre @ p # post)" using dxs by simp
        moreover have "set (pre @ p # post) =
            {e. e < length ents3 \<and> worldSector (ents3 ! e) = Some n}"
          unfolding True len3 ws3 set2 [OF wsN, unfolded len2] xs using dxs by auto
        ultimately show ?thesis by blast
      next
        case False
        have "chain ents3 (entities (?secs ! n)) (M n) = chain ents2 (entities (?secs ! n)) (M n)"
        proof (rule chain_cong)
          show "length ents3 = length ents2" by (simp add: len3 len2)
          fix x assume "x \<in> set (M n)"
          then have "worldSector (?ents ! x) = Some n"
            unfolding se [OF n] by simp
          with pws False have "x \<noteq> p" by auto
          then show "nextEntityInWorldSector (ents3 ! x) = nextEntityInWorldSector (ents2 ! x)"
            by (rule nx3)
        qed
        then have "chain ents3 (entities (?secs ! n)) (M n)"
          unfolding ch2 using ch [OF n] by simp
        moreover have "set (M n) = {e. e < length ents3 \<and> worldSector (ents3 ! e) = Some n}"
          unfolding len3 ws3 set2 [OF n, unfolded len2] other [OF n False] ..
        ultimately show ?thesis using di [OF n] by blast
      qed
    next
      fix i n assume "i < length ents3" "worldSector (ents3 ! i) = Some n"
      then have "i < length ents2" "worldSector (ents2 ! i) = Some n"
        by (simp_all add: len3 len2 ws3)
      from place2 [OF this]
      show "n < ?N \<and> link_descend ?secs (r_absmin (ents3 ! i)) (r_absmax (ents3 ! i)) 0 = Some n"
        unfolding ab3 .
    qed (simp_all add: w'_def)
    moreover have "length (svEntities w') = length ?ents"
      "svEntities w' ! e = (?ents ! e)\<lparr>r_linked := False, worldSector := None\<rparr>"
      using e ne(2) by (simp_all add: w'_def ents3_def ents2_def)
    ultimately show ?thesis using call by blast
  qed
qed


subsection \<open>SV\_LinkEntity\<close>

lemma set_abs_box_links [simp]:
  "worldSector (set_abs_box X g) = worldSector g"
  "nextEntityInWorldSector (set_abs_box X g) = nextEntityInWorldSector g"
  "s_solid (set_abs_box X g) = s_solid g"
  by (simp_all add: set_abs_box_def Let_def)

lemma encode_solid_cong:
  assumes "r_bmodel g' = r_bmodel g" "r_contents g' = r_contents g"
    "r_mins g' = r_mins g" "r_maxs g' = r_maxs g"
  shows "encode_solid K g' = encode_solid K g"
  by (simp add: encode_solid_def assms)

lemma link_step:
  assumes "e < length (svEntities w)"
    and "(if worldSector (svEntities w ! e) \<noteq> None then SV_UnlinkEntity e w
          else Some (w, False)) = Some (w1, warned)"
    and "encode_solid K (svEntities w1 ! e) = Some solid"
    and "e2 = set_abs_box X ((svEntities w1 ! e)\<lparr>s_solid := solid\<rparr>)"
    and "w2 = w1\<lparr>svEntities := (svEntities w1)[e := e2]\<rparr>"
  shows "SV_LinkEntity K X e w =
     (if CM_BoxLeafnums X (r_absmin e2) (r_absmax e2) = 0 then Some w2
      else case link_descend (sv_worldSectors w2) (r_absmin e2) (r_absmax e2) 0 of
        None \<Rightarrow> None
      | Some node \<Rightarrow>
          Some (w2\<lparr>sv_worldSectors := (sv_worldSectors w2)
                     [node := (sv_worldSectors w2 ! node)\<lparr>entities := Some e\<rparr>],
                   svEntities := (svEntities w2)
                     [e := e2\<lparr>r_linkcount := r_linkcount e2 + 1,
                              worldSector := Some node,
                              nextEntityInWorldSector := entities (sv_worldSectors w2 ! node),
                              r_linked := True\<rparr>]\<rparr>))"
  unfolding SV_LinkEntity_def using assms(1)
  by (simp only: assms(2) if_False not_not) 
     (simp add: assms(3) assms(4) [symmetric] assms(5) [symmetric] Let_def split: option.split)


lemma link_undefined:
  assumes "e < length (svEntities w)"
    and "(if worldSector (svEntities w ! e) \<noteq> None then SV_UnlinkEntity e w
          else Some (w, False)) = Some (w1, warned)"
    and "encode_solid K (svEntities w1 ! e) = None"
  shows "SV_LinkEntity K X e w = None"
  unfolding SV_LinkEntity_def using assms(1)
  by (simp only: assms(2) if_False not_not) (simp add: assms(3))

lemma link_insert_inv:
  assumes inv: "world_inv w" and e: "e < length (svEntities w)"
    and un: "worldSector (svEntities w ! e) = None"
    and node: "node < 2 ^ Suc AREA_DEPTH - 1"
    and ws3: "worldSector e3 = Some node"
    and nx3: "nextEntityInWorldSector e3 = entities (sv_worldSectors w ! node)"
    and de: "link_descend (sv_worldSectors w) (r_absmin e3) (r_absmax e3) 0 = Some node"
  shows "world_inv (w\<lparr>sv_worldSectors := (sv_worldSectors w)
                        [node := (sv_worldSectors w ! node)\<lparr>entities := Some e\<rparr>],
                      svEntities := (svEntities w)[e := e3]\<rparr>)"
proof -
  let ?N = "2 ^ Suc AREA_DEPTH - 1 :: nat"
  let ?secs = "sv_worldSectors w"
  let ?ents = "svEntities w"
  let ?secs' = "?secs[node := (?secs ! node)\<lparr>entities := Some e\<rparr>]"
  let ?ents' = "?ents[e := e3]"
  from inv have shape: "sector_shape AREA_DEPTH ?secs 0"
    and place: "\<And>i n. i < length ?ents \<Longrightarrow> worldSector (?ents ! i) = Some n \<Longrightarrow>
        n < ?N \<and> link_descend ?secs (r_absmin (?ents ! i)) (r_absmax (?ents ! i)) 0 = Some n"
    unfolding world_inv_def by blast+
  from world_inv_members [OF inv] obtain M where
    ch: "\<And>n. n < ?N \<Longrightarrow> chain ?ents (entities (?secs ! n)) (M n)"
    and di: "\<And>n. n < ?N \<Longrightarrow> distinct (M n)"
    and se: "\<And>n. n < ?N \<Longrightarrow>
       set (M n) = {i. i < length ?ents \<and> worldSector (?ents ! i) = Some n}"
    by blast
  have "?N \<le> length ?secs" using shape_length [OF shape] by simp
  with node have nl: "node < length ?secs" by simp
  have eM: "e \<notin> set (M n)" if "n < ?N" for n
    unfolding se [OF that] using un by simp
  have ch': "chain ?ents' p (M n) = chain ?ents p (M n)" if "n < ?N" for n p
  proof (rule chain_cong)
    show "length ?ents' = length ?ents" by simp
    fix x assume "x \<in> set (M n)"
    with eM [OF that] have "e \<noteq> x" by auto
    then show "nextEntityInWorldSector (?ents' ! x) = nextEntityInWorldSector (?ents ! x)"
      by simp
  qed
  have set': "{i. i < length ?ents' \<and> worldSector (?ents' ! i) = Some n} =
      (if n = node then insert e (set (M n)) else set (M n))" if "n < ?N" for n
    unfolding se [OF that] using e un ws3 by (auto simp: nth_list_update)
  show ?thesis
  proof (rule world_invI [where secs = ?secs' and ents = ?ents'])
    show "sector_shape AREA_DEPTH ?secs' 0"
      unfolding shape_upd by (rule shape)
  next
    fix n :: nat assume n: "n < ?N"
    show "\<exists>xs. chain ?ents' (entities (?secs' ! n)) xs \<and> distinct xs \<and>
              set xs = {i. i < length ?ents' \<and> worldSector (?ents' ! i) = Some n}"
    proof (cases "n = node")
      case True
      have h: "entities (?secs' ! n) = Some e"
        using nl True by simp
      have "chain ?ents' (entities (?secs ! node)) (M node)"
        unfolding ch' [OF node] by (rule ch [OF node])
      then have "chain ?ents' (Some e) (e # M n)"
        using e nx3 unfolding True by simp
      moreover have "distinct (e # M n)"
        using di [OF n] eM [OF n] by simp
      moreover have "set (e # M n) = {i. i < length ?ents' \<and> worldSector (?ents' ! i) = Some n}"
        unfolding set' [OF n] using True by simp
      ultimately show ?thesis unfolding h by blast
    next
      case False
      then have h: "entities (?secs' ! n) = entities (?secs ! n)"
        by simp
      have "chain ?ents' (entities (?secs ! n)) (M n)"
        unfolding ch' [OF n] by (rule ch [OF n])
      moreover have "set (M n) = {i. i < length ?ents' \<and> worldSector (?ents' ! i) = Some n}"
        unfolding set' [OF n] using False by simp
      ultimately show ?thesis unfolding h using di [OF n] by blast
    qed
  next
    fix i n assume i: "i < length ?ents'" and w: "worldSector (?ents' ! i) = Some n"
    show "n < ?N \<and> link_descend ?secs' (r_absmin (?ents' ! i)) (r_absmax (?ents' ! i)) 0 = Some n"
    proof (cases "i = e")
      case True
      with w e ws3 have "n = node" by simp
      with True e node de show ?thesis
        unfolding descend_upd [OF shape] by simp
    next
      case False
      with i w have "i < length ?ents" "worldSector (?ents ! i) = Some n"
        by simp_all
      from place [OF this] False show ?thesis
        unfolding descend_upd [OF shape] by simp
    qed
  qed simp_all
qed

text \<open>
  \<^verbatim>\<open>SV_LinkEntity\<close> of an entity of a linked world returns a linked world, unless the
  conversion of a bound to \<^verbatim>\<open>int\<close> is undefined. The entity has the encoded size as its
  \<^verbatim>\<open>solid\<close>.
\<close>

lemma link_inv:
  assumes inv: "world_inv w" and e: "e < length (svEntities w)"
  shows "(encode_solid K (svEntities w ! e) = None \<longrightarrow> SV_LinkEntity K X e w = None) \<and>
         (encode_solid K (svEntities w ! e) \<noteq> None \<longrightarrow>
            (\<exists>w'. SV_LinkEntity K X e w = Some w' \<and> world_inv w' \<and>
                  length (svEntities w') = length (svEntities w) \<and>
                  encode_solid K (svEntities w ! e) = Some (s_solid (svEntities w' ! e))))"
proof -
  let ?N = "2 ^ Suc AREA_DEPTH - 1 :: nat"
  obtain w1 where un: "(if worldSector (svEntities w ! e) \<noteq> None then SV_UnlinkEntity e w
          else Some (w, False)) = Some (w1, False)"
    and inv1: "world_inv w1" and len1: "length (svEntities w1) = length (svEntities w)"
    and ws1: "worldSector (svEntities w1 ! e) = None"
    and enc: "encode_solid K (svEntities w1 ! e) = encode_solid K (svEntities w ! e)"
  proof (cases "worldSector (svEntities w ! e) = None")
    case True
    with inv show ?thesis by (intro that [of w]) simp_all
  next
    case False
    from unlink_inv [OF inv e] obtain w' where
      u: "SV_UnlinkEntity e w = Some (w', False)" "world_inv w'"
      "length (svEntities w') = length (svEntities w)"
      and ent: "svEntities w' ! e = (svEntities w ! e)\<lparr>r_linked := False, worldSector := None\<rparr>"
      by blast
    have "encode_solid K (svEntities w' ! e) = encode_solid K (svEntities w ! e)"
      by (rule encode_solid_cong) (simp_all add: ent)
    moreover have "worldSector (svEntities w' ! e) = None"
      by (simp add: ent)
    ultimately show ?thesis
      using False u by (intro that [of w']) simp_all
  qed
  have e1: "e < length (svEntities w1)" using e len1 by simp
  show ?thesis
  proof (cases "encode_solid K (svEntities w ! e)")
    case None
    with link_undefined [OF e un] enc show ?thesis by simp
  next
    case (Some solid)
    define e2 where "e2 = set_abs_box X ((svEntities w1 ! e)\<lparr>s_solid := solid\<rparr>)"
    define w2 where "w2 = w1\<lparr>svEntities := (svEntities w1)[e := e2]\<rparr>"
    have inv2: "world_inv w2"
      unfolding w2_def by (rule world_inv_entity [OF inv1 e1]) (simp_all add: e2_def ws1)
    have s2: "sv_worldSectors w2 = sv_worldSectors w1" "svEntities w2 ! e = e2"
      "length (svEntities w2) = length (svEntities w)"
      using e1 by (simp_all add: w2_def len1)
    have e2l: "e < length (svEntities w2)" using e s2(3) by simp
    have ws2: "worldSector (svEntities w2 ! e) = None"
      by (simp add: s2 e2_def ws1)
    from inv2 have shape: "sector_shape AREA_DEPTH (sv_worldSectors w2) 0"
      unfolding world_inv_def by blast
    from link_descend_total [OF shape, of "r_absmin e2" "r_absmax e2"] obtain node where
      de: "link_descend (sv_worldSectors w2) (r_absmin e2) (r_absmax e2) 0 = Some node"
      and node: "node < ?N"
      by auto
    let ?e3 = "e2\<lparr>r_linkcount := r_linkcount e2 + 1, worldSector := Some node,
        nextEntityInWorldSector := entities (sv_worldSectors w2 ! node), r_linked := True\<rparr>"
    let ?w3 = "w2\<lparr>sv_worldSectors := (sv_worldSectors w2)
        [node := (sv_worldSectors w2 ! node)\<lparr>entities := Some e\<rparr>],
        svEntities := (svEntities w2)[e := ?e3]\<rparr>"
    have inv3: "world_inv ?w3"
      by (rule link_insert_inv [OF inv2 e2l ws2 node]) (simp_all add: de)
    have "SV_LinkEntity K X e w =
        (if CM_BoxLeafnums X (r_absmin e2) (r_absmax e2) = 0 then Some w2 else Some ?w3)"
      unfolding link_step [OF e un enc [unfolded Some] e2_def w2_def] de by simp
    moreover have "s_solid (svEntities w2 ! e) = solid" "s_solid (svEntities ?w3 ! e) = solid"
      using e2l by (simp_all add: s2 e2_def)
    moreover have "length (svEntities ?w3) = length (svEntities w)"
      by (simp add: s2)
    ultimately show ?thesis
      using inv2 inv3 s2(3) Some by (cases "CM_BoxLeafnums X (r_absmin e2) (r_absmax e2) = 0") simp_all
  qed
qed

subsection \<open>The worlds that the code builds\<close>

text \<open>Every world that the code builds has the invariant.\<close>

lemma linked_world_inv:
  "linked_world K X w \<Longrightarrow> world_inv w"
proof (induction rule: linked_world.induct)
  case (cleared w mins maxs w')
  from clear_world_inv [OF cleared(1), of mins maxs] cleared(2) show ?case
    by auto
next
  case (linked w e w')
  have e: "e < length (svEntities w)"
    using linked(2) by (cases "e < length (svEntities w)") (simp_all add: SV_LinkEntity_def)
  from link_inv [OF linked(3) e, of K X] linked(2) show ?case
    by (cases "encode_solid K (svEntities w ! e)") auto
next
  case (unlinked w e w' warned)
  have e: "e < length (svEntities w)"
    using unlinked(2) by (cases "e < length (svEntities w)") (simp_all add: SV_UnlinkEntity_def)
  from unlink_inv [OF unlinked(3) e] unlinked(2) show ?case
    by auto
next
  case (changed w e e')
  show ?case
    by (rule world_inv_entity [OF changed(6) changed(2) changed(3) changed(4) changed(5)])
qed


section \<open>The area query in the worlds that the code builds\<close>

text \<open>
  C1. In every world that the code builds, with its tree and its linked entities, each in
  the sector that the placement of \<^verbatim>\<open>SV_LinkEntity\<close> gave it for the \<^verbatim>\<open>absmin\<close> and
  \<^verbatim>\<open>absmax\<close> derived at the link, and for every capacity \<open>maxcount\<close> of the list,
  which is not negative, \<^verbatim>\<open>SV_AreaEntities\<close> returns. The list holds linked entities whose
  \<^verbatim>\<open>absmin\<close> and \<^verbatim>\<open>absmax\<close> meet the closed box on all three axes, each once, the count
  is its length, and the count does not exceed \<open>maxcount\<close>. When the number of linked
  entities whose bounds meet the box is at most \<open>maxcount\<close>, and so when it is less,
  the list holds exactly these entities, whatever sectors hold them.
\<close>

theorem C1_area_entities:
  assumes "linked_world K X w" and "0 \<le> maxcount'"
  shows "\<exists>ap. SV_AreaEntities w mins maxs maxcount' = Some ap \<and>
           ap_count ap = int (length (ap_list ap)) \<and>
           distinct (ap_list ap) \<and>
           set (ap_list ap) \<subseteq> linked_overlapping w mins maxs \<and>
           ap_count ap \<le> maxcount' \<and>
           (int (card (linked_overlapping w mins maxs)) \<le> maxcount' \<longrightarrow>
              set (ap_list ap) = linked_overlapping w mins maxs)"
  using area_entities_inv [OF linked_world_inv [OF assms(1)], of mins maxs maxcount'] assms(2)
  by blast

subsection \<open>The query in the world of four entities\<close>

lemma w_linked_built: "linked_world K0 X0 w_linked"
proof -
  have "list_all (\<lambda>e. worldSector e = None) (svEntities w_ents)"
    by code_simp
  then have un: "worldSector (svEntities w_ents ! e) = None" if "e < length (svEntities w_ents)" for e
    using that by (simp add: list_all_length)
  from clear_world_inv [OF un, of "Vec3 (- 1024) (- 1024) (- 128)" "Vec3 1024 1024 128"]
  have "SV_ClearWorld (Vec3 (- 1024) (- 1024) (- 128)) (Vec3 1024 1024 128) w_ents = Some w_clear"
    by (auto simp: w_clear_def)
  from linked_world.cleared [OF un this] have c: "linked_world K0 X0 w_clear" .
  have "0 < length (svEntities w_clear)" "encode_solid K0 (svEntities w_clear ! 0) \<noteq> None"
    by code_simp+
  with link_inv [OF linked_world_inv [OF c], of 0 K0 X0]
  have "SV_LinkEntity K0 X0 0 w_clear = Some w_link0"
    by (auto simp: w_link0_def)
  from linked_world.linked [OF c this] have l0: "linked_world K0 X0 w_link0" .
  have "1 < length (svEntities w_link0)" "encode_solid K0 (svEntities w_link0 ! 1) \<noteq> None"
    by code_simp+
  with link_inv [OF linked_world_inv [OF l0], of 1 K0 X0]
  have "SV_LinkEntity K0 X0 1 w_link0 = Some w_link1"
    by (auto simp: w_link1_def)
  from linked_world.linked [OF l0 this] have l1: "linked_world K0 X0 w_link1" .
  have "2 < length (svEntities w_link1)" "encode_solid K0 (svEntities w_link1 ! 2) \<noteq> None"
    by code_simp+
  with link_inv [OF linked_world_inv [OF l1], of 2 K0 X0]
  have "SV_LinkEntity K0 X0 2 w_link1 = Some w_linked"
    by (auto simp: w_linked_def)
  from linked_world.linked [OF l1 this] show ?thesis .
qed

lemma card_linked_overlapping:
  "card (linked_overlapping w mins maxs) \<le> length (svEntities w)"
proof -
  have "linked_overlapping w mins maxs \<subseteq> {..<length (svEntities w)}"
    by (auto simp: linked_overlapping_def)
  from card_mono [OF _ this] show ?thesis by simp
qed

text \<open>
  The theorem at the world \<open>w_linked\<close>: the query for a box around entities 0 and 1
  returns both, entity 1 first, which is in the root; entity 2 is elsewhere and entity 3,
  at the same place as entity 1, is not linked. A query for the whole world with a cap of 2
  stops at two entities.
\<close>

theorem C1_area_entities_witness:
  "map_option ap_list
     (SV_AreaEntities w_linked (Vec3 (- 50) (- 50) (- 50)) (Vec3 120 120 50) 1024) = Some [1, 0] \<and>
   linked_overlapping w_linked (Vec3 (- 50) (- 50) (- 50)) (Vec3 120 120 50) = {0, 1} \<and>
   map_option ap_list
     (SV_AreaEntities w_linked (Vec3 (- 2000) (- 2000) (- 50)) (Vec3 2000 2000 50) 2) = Some [1, 0] \<and>
   (\<exists>ap. SV_AreaEntities w_linked (Vec3 (- 2000) (- 2000) (- 50)) (Vec3 2000 2000 50) 2 = Some ap \<and>
      ap_count ap \<le> 2)"
proof -
  let ?mins = "Vec3 (- 50) (- 50) (- 50)" and ?maxs = "Vec3 120 120 50"
  have ev: "map_option ap_list (SV_AreaEntities w_linked ?mins ?maxs 1024) = Some [1, 0]"
    by code_simp
  have ev2: "map_option ap_list
     (SV_AreaEntities w_linked (Vec3 (- 2000) (- 2000) (- 50)) (Vec3 2000 2000 50) 2) = Some [1, 0]"
    by code_simp
  have "length (svEntities w_linked) = 4"
    by code_simp
  with card_linked_overlapping [of w_linked ?mins ?maxs]
  have "int (card (linked_overlapping w_linked ?mins ?maxs)) \<le> 1024"
    by simp
  with C1_area_entities [OF w_linked_built, of 1024 ?mins ?maxs] obtain ap where
    "SV_AreaEntities w_linked ?mins ?maxs 1024 = Some ap"
    "set (ap_list ap) = linked_overlapping w_linked ?mins ?maxs"
    by auto
  with ev have lo: "linked_overlapping w_linked ?mins ?maxs = {0, 1}"
    by auto
  from C1_area_entities [OF w_linked_built, of 2 "Vec3 (- 2000) (- 2000) (- 50)"
      "Vec3 2000 2000 50"]
  have "\<exists>ap. SV_AreaEntities w_linked (Vec3 (- 2000) (- 2000) (- 50)) (Vec3 2000 2000 50) 2 =
      Some ap \<and> ap_count ap \<le> 2"
    by auto
  with ev ev2 lo show ?thesis by blast
qed

declare power_Suc [simp]



section \<open>The size encoded by SV\_LinkEntity\<close>

lemma trunc_clamp:
  "float_to_int x = Some t \<Longrightarrow> clamp_1_255 t = \<lfloor>max 1 (min 255 x)\<rfloor>"
  unfolding float_to_int_def clamp_1_255_def Let_def
  by (auto split: if_splits simp: max_def min_def floor_eq_iff; linarith)

lemma clamp_range: "1 \<le> clamp_1_255 t \<and> clamp_1_255 t \<le> 255"
  by (simp add: clamp_1_255_def Let_def)

lemma or_push_bit_add:
  assumes "0 \<le> a" "a < 2 ^ n"
  shows "push_bit n b OR a = push_bit n b + (a::int)"
proof -
  have a: "take_bit n a = a"
    using assms by (simp add: take_bit_int_eq_self)
  have "push_bit n b + take_bit n a = push_bit n b OR take_bit n a"
    by (rule disjunctive_add) (auto simp: bit_push_bit_iff bit_take_bit_iff)
  then show ?thesis by (simp add: a)
qed

lemma pack_sum:
  assumes "0 \<le> i" "i < 256" "0 \<le> j" "j < 256"
  shows "push_bit 16 k OR push_bit 8 j OR i = k * 65536 + j * 256 + (i::int)"
proof -
  have 1: "push_bit 8 j OR i = push_bit 8 j + i"
    using assms or_push_bit_add [of i 8 j] by simp
  have "0 \<le> push_bit 8 j + i" "push_bit 8 j + i < 2 ^ 16"
    using assms by (simp_all add: push_bit_eq_mult)
  then have "push_bit 16 k OR (push_bit 8 j + i) = push_bit 16 k + (push_bit 8 j + i)"
    by (rule or_push_bit_add)
  then show ?thesis
    unfolding 1 by (simp add: push_bit_eq_mult)
qed

text \<open>
  The encoded size of an entity that is no bmodel: with contents of
  \<^verbatim>\<open>CONTENTS_SOLID|CONTENTS_BODY\<close> it is the three clamped bounds packed into bytes, with
  the low byte one less when this is \<^verbatim>\<open>SOLID_BMODEL\<close>, and never \<^verbatim>\<open>SOLID_BMODEL\<close>;
  without such contents it is 0.
\<close>

lemma encode_solid_value:
  assumes "\<not> r_bmodel gEnt"
  shows "(r_contents gEnt AND (CONTENTS_SOLID K OR CONTENTS_BODY K) \<noteq> 0 \<longrightarrow>
           (\<forall>i0 j0 k0.
              float_to_int (vnth (r_maxs gEnt) 0) = Some i0 \<and>
              float_to_int (- vnth (r_mins gEnt) 2) = Some j0 \<and>
              float_to_int (f32 (vnth (r_maxs gEnt) 2 + 32)) = Some k0 \<longrightarrow>
              (let i = \<lfloor>max 1 (min 255 (vnth (r_maxs gEnt) 0))\<rfloor>;
                   j = \<lfloor>max 1 (min 255 (- vnth (r_mins gEnt) 2))\<rfloor>;
                   k = \<lfloor>max 1 (min 255 (f32 (vnth (r_maxs gEnt) 2 + 32)))\<rfloor>;
                   v = push_bit 16 k OR push_bit 8 j OR i
               in encode_solid K gEnt =
                    Some (if v = SOLID_BMODEL K then push_bit 16 k OR push_bit 8 j OR (i - 1)
                          else v) \<and>
                  encode_solid K gEnt \<noteq> Some (SOLID_BMODEL K)))) \<and>
         (r_contents gEnt AND (CONTENTS_SOLID K OR CONTENTS_BODY K) = 0 \<longrightarrow>
            encode_solid K gEnt = Some 0)"
proof (intro conjI impI allI)
  fix i0 j0 k0
  assume solid: "r_contents gEnt AND (CONTENTS_SOLID K OR CONTENTS_BODY K) \<noteq> 0"
    and conv: "float_to_int (vnth (r_maxs gEnt) 0) = Some i0 \<and>
              float_to_int (- vnth (r_mins gEnt) 2) = Some j0 \<and>
              float_to_int (f32 (vnth (r_maxs gEnt) 2 + 32)) = Some k0"
  define i where "i = clamp_1_255 i0"
  define j where "j = clamp_1_255 j0"
  define k where "k = clamp_1_255 k0"
  have ci: "i = \<lfloor>max 1 (min 255 (vnth (r_maxs gEnt) 0))\<rfloor>"
    and cj: "j = \<lfloor>max 1 (min 255 (- vnth (r_mins gEnt) 2))\<rfloor>"
    and ck: "k = \<lfloor>max 1 (min 255 (f32 (vnth (r_maxs gEnt) 2 + 32)))\<rfloor>"
    using conv by (simp_all add: i_def j_def k_def trunc_clamp)
  have r: "1 \<le> i" "i \<le> 255" "1 \<le> j" "j \<le> 255" "1 \<le> k" "k \<le> 255"
    using clamp_range by (simp_all add: i_def j_def k_def)
  have enc: "encode_solid K gEnt =
      Some (if push_bit 16 k OR push_bit 8 j OR i = SOLID_BMODEL K
            then push_bit 16 k OR push_bit 8 j OR (i - 1)
            else push_bit 16 k OR push_bit 8 j OR i)"
    using assms solid conv by (simp add: encode_solid_def Let_def i_def j_def k_def)
  have s1: "push_bit 16 k OR push_bit 8 j OR i = k * 65536 + j * 256 + i"
    using r by (intro pack_sum) simp_all
  have s2: "push_bit 16 k OR push_bit 8 j OR (i - 1) = k * 65536 + j * 256 + (i - 1)"
    using r by (intro pack_sum) simp_all
  have ne: "encode_solid K gEnt \<noteq> Some (SOLID_BMODEL K)"
    unfolding enc using s1 s2 by auto
  show "let i = \<lfloor>max 1 (min 255 (vnth (r_maxs gEnt) 0))\<rfloor>;
            j = \<lfloor>max 1 (min 255 (- vnth (r_mins gEnt) 2))\<rfloor>;
            k = \<lfloor>max 1 (min 255 (f32 (vnth (r_maxs gEnt) 2 + 32)))\<rfloor>;
            v = push_bit 16 k OR push_bit 8 j OR i
        in encode_solid K gEnt =
             Some (if v = SOLID_BMODEL K then push_bit 16 k OR push_bit 8 j OR (i - 1) else v) \<and>
           encode_solid K gEnt \<noteq> Some (SOLID_BMODEL K)"
    unfolding Let_def ci [symmetric] cj [symmetric] ck [symmetric]
    using enc ne by simp
next
  assume "r_contents gEnt AND (CONTENTS_SOLID K OR CONTENTS_BODY K) = 0"
  then show "encode_solid K gEnt = Some 0"
    using assms by (simp add: encode_solid_def)
qed

text \<open>
  C8. \<^verbatim>\<open>SV_LinkEntity\<close> of an entity that is no bmodel and whose contents meet
  \<^verbatim>\<open>CONTENTS_SOLID|CONTENTS_BODY\<close> returns and leaves the entity with the solid
  \<^verbatim>\<open>(clamp(maxs[2]+32) << 16) | (clamp(-mins[2]) << 8) | clamp(maxs[0])\<close>, each clamp to
  1..255 and the sum \<^verbatim>\<open>maxs[2]+32\<close> a \<^verbatim>\<open>float\<close>, with the low byte one less when this
  is \<^verbatim>\<open>SOLID_BMODEL\<close>; so its solid is never \<^verbatim>\<open>SOLID_BMODEL\<close>. \<^verbatim>\<open>SV_LinkEntity\<close> of
  an entity that is no bmodel and has no such contents returns and leaves it with the
  solid 0. The three bounds are converted to \<^verbatim>\<open>int\<close>, which C defines when they fit. The
  world is one that the code builds.
\<close>

theorem C8_solid_encoding:
  assumes "linked_world K X w" and "gEnt < length (svEntities w)"
    and "\<not> r_bmodel (svEntities w ! gEnt)"
  shows "(r_contents (svEntities w ! gEnt) AND (CONTENTS_SOLID K OR CONTENTS_BODY K) \<noteq> 0 \<longrightarrow>
           (\<forall>i0 j0 k0.
              float_to_int (vnth (r_maxs (svEntities w ! gEnt)) 0) = Some i0 \<and>
              float_to_int (- vnth (r_mins (svEntities w ! gEnt)) 2) = Some j0 \<and>
              float_to_int (f32 (vnth (r_maxs (svEntities w ! gEnt)) 2 + 32)) = Some k0 \<longrightarrow>
              (let i = \<lfloor>max 1 (min 255 (vnth (r_maxs (svEntities w ! gEnt)) 0))\<rfloor>;
                   j = \<lfloor>max 1 (min 255 (- vnth (r_mins (svEntities w ! gEnt)) 2))\<rfloor>;
                   k = \<lfloor>max 1 (min 255 (f32 (vnth (r_maxs (svEntities w ! gEnt)) 2 + 32)))\<rfloor>;
                   v = push_bit 16 k OR push_bit 8 j OR i
               in \<exists>w'. SV_LinkEntity K X gEnt w = Some w' \<and>
                    s_solid (svEntities w' ! gEnt) =
                      (if v = SOLID_BMODEL K then push_bit 16 k OR push_bit 8 j OR (i - 1)
                       else v) \<and>
                    s_solid (svEntities w' ! gEnt) \<noteq> SOLID_BMODEL K))) \<and>
         (r_contents (svEntities w ! gEnt) AND (CONTENTS_SOLID K OR CONTENTS_BODY K) = 0 \<longrightarrow>
            (\<exists>w'. SV_LinkEntity K X gEnt w = Some w' \<and> s_solid (svEntities w' ! gEnt) = 0))"
proof -
  let ?g = "svEntities w ! gEnt"
  have inv: "world_inv w"
    using assms(1) by (rule linked_world_inv)
  have link: "\<exists>w'. SV_LinkEntity K X gEnt w = Some w' \<and> s_solid (svEntities w' ! gEnt) = v"
    if "encode_solid K ?g = Some v" for v
    using link_inv [OF inv assms(2), of K X] that by auto
  show ?thesis
  proof (intro conjI impI allI)
    fix i0 j0 k0
    assume solid: "r_contents ?g AND (CONTENTS_SOLID K OR CONTENTS_BODY K) \<noteq> 0"
      and conv: "float_to_int (vnth (r_maxs ?g) 0) = Some i0 \<and>
                float_to_int (- vnth (r_mins ?g) 2) = Some j0 \<and>
                float_to_int (f32 (vnth (r_maxs ?g) 2 + 32)) = Some k0"
    define i where "i = \<lfloor>max 1 (min 255 (vnth (r_maxs ?g) 0))\<rfloor>"
    define j where "j = \<lfloor>max 1 (min 255 (- vnth (r_mins ?g) 2))\<rfloor>"
    define k where "k = \<lfloor>max 1 (min 255 (f32 (vnth (r_maxs ?g) 2 + 32)))\<rfloor>"
    define v where "v = push_bit 16 k OR push_bit 8 j OR i"
    define r where "r = (if v = SOLID_BMODEL K then push_bit 16 k OR push_bit 8 j OR (i - 1) else v)"
    from encode_solid_value [OF assms(3), of K] solid conv
    have enc: "encode_solid K ?g = Some r" and ne: "encode_solid K ?g \<noteq> Some (SOLID_BMODEL K)"
      unfolding r_def v_def i_def j_def k_def Let_def by blast+
    from link [OF enc] obtain w' where
      w': "SV_LinkEntity K X gEnt w = Some w'" "s_solid (svEntities w' ! gEnt) = r"
      by blast
    have "r \<noteq> SOLID_BMODEL K"
      using enc ne by auto
    with w' have "\<exists>w'. SV_LinkEntity K X gEnt w = Some w' \<and>
        s_solid (svEntities w' ! gEnt) = r \<and> s_solid (svEntities w' ! gEnt) \<noteq> SOLID_BMODEL K"
      by auto
    then show "let i = \<lfloor>max 1 (min 255 (vnth (r_maxs ?g) 0))\<rfloor>;
                   j = \<lfloor>max 1 (min 255 (- vnth (r_mins ?g) 2))\<rfloor>;
                   k = \<lfloor>max 1 (min 255 (f32 (vnth (r_maxs ?g) 2 + 32)))\<rfloor>;
                   v = push_bit 16 k OR push_bit 8 j OR i
               in \<exists>w'. SV_LinkEntity K X gEnt w = Some w' \<and>
                    s_solid (svEntities w' ! gEnt) =
                      (if v = SOLID_BMODEL K then push_bit 16 k OR push_bit 8 j OR (i - 1)
                       else v) \<and>
                    s_solid (svEntities w' ! gEnt) \<noteq> SOLID_BMODEL K"
      unfolding Let_def r_def v_def i_def j_def k_def .
  next
    assume "r_contents ?g AND (CONTENTS_SOLID K OR CONTENTS_BODY K) = 0"
    with encode_solid_value [OF assms(3), of K] have "encode_solid K ?g = Some 0"
      by blast
    from link [OF this]
    show "\<exists>w'. SV_LinkEntity K X gEnt w = Some w' \<and> s_solid (svEntities w' ! gEnt) = 0" .
  qed
qed

text \<open>
  The theorem at three entities of the world \<open>w_boxes\<close>: a box whose upper bound
  \<open>1 - 2 ^ - 24\<close> plus 32 is rounded to 33; a box of half-width 300, where every byte
  clamps to 255 and the solid would be \<^verbatim>\<open>SOLID_BMODEL\<close>; and an entity without contents.
\<close>

lemma w_boxes_built: "linked_world K0 X0 w_boxes"
proof -
  have "list_all (\<lambda>e. worldSector e = None) (svEntities w_box_ents)"
    by code_simp
  then have un: "worldSector (svEntities w_box_ents ! e) = None"
    if "e < length (svEntities w_box_ents)" for e
    using that by (simp add: list_all_length)
  from clear_world_inv [OF un, of "Vec3 (- 1024) (- 1024) (- 128)" "Vec3 1024 1024 128"]
  have "SV_ClearWorld (Vec3 (- 1024) (- 1024) (- 128)) (Vec3 1024 1024 128) w_box_ents =
      Some w_boxes"
    by (auto simp: w_boxes_def)
  from linked_world.cleared [OF un this] show ?thesis .
qed

lemma w_boxes_entities: "svEntities w_boxes = svEntities w_box_ents"
proof -
  have "worldSector (svEntities w_box_ents ! e) = None"
    if "e < length (svEntities w_box_ents)" for e
    using that by (simp add: w_box_ents_def ent0_def nth_Cons split: nat.splits)
  from clear_world_inv [OF this, of "Vec3 (- 1024) (- 1024) (- 128)" "Vec3 1024 1024 128"]
  show ?thesis
    by (auto simp: w_boxes_def)
qed

theorem C8_solid_encoding_witness:
  "(\<exists>w'. SV_LinkEntity K0 X0 0 w_boxes = Some w' \<and> s_solid (svEntities w' ! 0) = 2162945) \<and>
   (\<exists>w'. SV_LinkEntity K0 X0 1 w_boxes = Some w' \<and> s_solid (svEntities w' ! 1) = 16777214) \<and>
   (\<exists>w'. SV_LinkEntity K0 X0 2 w_boxes = Some w' \<and> s_solid (svEntities w' ! 2) = 0)"
proof -
  have f: "f32 (553648127 / 16777216) = 33" "f32 332 = 332"
    by code_simp+
  show ?thesis
    using C8_solid_encoding [OF w_boxes_built, of 0] C8_solid_encoding [OF w_boxes_built, of 1]
      C8_solid_encoding [OF w_boxes_built, of 2]
    by (simp add: w_boxes_entities w_box_ents_def K0_def ent0_def float_to_int_def f Let_def)
      blast
qed


section \<open>The candidates of SV\_ClipMoveToEntities\<close>

subsection \<open>The loop does not change the parameters of the clip\<close>

lemma skip_entity_trace [simp]:
  "skip_entity K (clip\<lparr>trace := t\<rparr>) = skip_entity K clip"
  by (simp add: skip_entity_def ignore_entity_def fun_eq_iff)

lemma exact_trace_trace [simp]:
  "exact_trace K X (clip\<lparr>trace := t\<rparr>) = exact_trace K X clip"
  by (simp add: exact_trace_def fun_eq_iff)

lemma g2_wanted_trace [simp]:
  "g2_wanted K (clip\<lparr>trace := t\<rparr>) = g2_wanted K clip"
  by (simp add: g2_wanted_def fun_eq_iff)

lemma g2_collision_trace [simp]:
  "g2_collision K X (clip\<lparr>trace := t\<rparr>) = g2_collision K X clip"
  by (simp add: g2_collision_def g2_radius_def fun_eq_iff)

lemma clip_candidate_eq:
  "clip_candidate K X clip touch = clip\<lparr>trace := trace (clip_candidate K X clip touch)\<rparr>"
  by (simp add: clip_candidate_def Let_def split: prod.splits)

lemma skip_entity_candidate [simp]:
  "skip_entity K (clip_candidate K X clip touch) = skip_entity K clip"
  by (subst clip_candidate_eq) (rule skip_entity_trace)

lemma exact_trace_candidate [simp]:
  "exact_trace K X (clip_candidate K X clip touch) = exact_trace K X clip"
  by (subst clip_candidate_eq) (rule exact_trace_trace)

lemma g2_wanted_candidate [simp]:
  "g2_wanted K (clip_candidate K X clip touch) = g2_wanted K clip"
  by (subst clip_candidate_eq) (rule g2_wanted_trace)

lemma g2_collision_candidate [simp]:
  "g2_collision K X (clip_candidate K X' clip touch) = g2_collision K X clip"
  by (subst clip_candidate_eq) (rule g2_collision_trace)

lemma traceFlags_candidate [simp]:
  "traceFlags (clip_candidate K X clip touch) = traceFlags clip"
  by (subst clip_candidate_eq) simp

lemma clip_loop_allsolid:
  "allsolid (trace clip) \<Longrightarrow>
     clip_loop K X ents passOwnerNum thisOwnerShared ts (clip, tested) = (clip, tested)"
  by (cases ts) simp_all

text \<open>The skipped candidates do not matter to the result.\<close>

lemma clip_loop_filter:
  "fst (clip_loop K X ents pon tos ts (clip, tested)) =
   fst (clip_loop K X ents pon tos
     (filter (\<lambda>t. \<not> skip_entity K clip pon tos t (ents ! t)) ts) (clip, tested'))"
proof (induction ts arbitrary: clip tested tested')
  case Nil
  then show ?case by simp
next
  case (Cons t ts)
  show ?case
  proof (cases "allsolid (trace clip)")
    case True
    then show ?thesis by (simp add: clip_loop_allsolid)
  next
    case False
    show ?thesis
    proof (cases "skip_entity K clip pon tos t (ents ! t)")
      case True
      with False Cons.IH [of clip tested tested'] show ?thesis by simp
    next
      case False
      with \<open>\<not> allsolid (trace clip)\<close>
        Cons.IH [of "clip_candidate K X clip (ents ! t)" "tested @ [t]" "tested' @ [t]"]
      show ?thesis by simp
    qed
  qed
qed

subsection \<open>The aggregation of one exact trace\<close>

lemma aggregate_allsolid:
  assumes "allsolid tr"
  shows "allsolid (fst (clip_aggregate ct tr num)) \<and>
         (fraction tr = 0 \<and> 0 \<le> fraction ct \<longrightarrow> fraction (fst (clip_aggregate ct tr num)) = 0) \<and>
         (fraction tr < fraction ct \<longrightarrow> entityNum (fst (clip_aggregate ct tr num)) = num)"
  using assms by (auto simp: clip_aggregate_def Let_def)

lemma aggregate_startsolid:
  "startsolid ct \<Longrightarrow> startsolid (fst (clip_aggregate ct tr num))"
  by (auto simp: clip_aggregate_def Let_def)

lemma aggregate_replace:
  "fraction tr < fraction ct \<Longrightarrow>
     clip_aggregate ct tr num =
       (tr\<lparr>entityNum := num, startsolid := (startsolid ct \<or> startsolid tr)\<rparr>,
        tr\<lparr>entityNum := num\<rparr>)"
  by (cases "allsolid tr"; cases "startsolid tr") (auto simp: clip_aggregate_def Let_def)

lemma aggregate_better:
  "\<not> allsolid tr \<Longrightarrow> \<not> startsolid tr \<Longrightarrow> fraction tr < fraction ct \<Longrightarrow>
     fst (clip_aggregate ct tr num) = tr\<lparr>entityNum := num, startsolid := startsolid ct\<rparr>"
  by (simp add: clip_aggregate_def Let_def)

lemma aggregate_worse:
  "\<not> allsolid tr \<Longrightarrow> \<not> startsolid tr \<Longrightarrow> \<not> fraction tr < fraction ct \<Longrightarrow>
     clip_aggregate ct tr num = (ct, tr)"
  by (simp add: clip_aggregate_def Let_def)

lemma aggregate_local_solid:
  "allsolid tr \<Longrightarrow> entityNum (snd (clip_aggregate ct tr num)) = num"
  by (auto simp: clip_aggregate_def Let_def)

subsection \<open>The Ghoul2 test\<close>

lemma g2_best_Some:
  "g2_best num gs = Some g \<Longrightarrow> mEntityNum g = num"
  by (induction gs) (auto split: if_splits)

text \<open>
  The test puts the old trace back, or moves the end of the clip trace to the place of
  the hit, or leaves the clip trace alone.
\<close>

lemma g2_refine_cases:
  "g2_refine K X clip ct oldTrace tr touch =
     (if g2_wanted K clip touch \<and> entityNum tr = s_number touch then
        (case g2_collision K X clip touch of
           None \<Rightarrow> oldTrace
         | Some g \<Rightarrow>
             ct\<lparr>endpos := mCollisionPosition g, plane_normal := mCollisionNormal g,
                surfaceFlags :=
                  (if traceFlags clip AND G2TRFLAG_GETSURFINDEX K \<noteq> 0 \<and>
                      entityNum ct = s_number touch
                   then mSurfaceIndex g else surfaceFlags ct)\<rparr>)
      else ct)"
proof (cases "g2_collision K X clip touch")
  case None
  then show ?thesis
    by (auto simp: g2_refine_def g2_wanted_def g2_collision_def)
next
  case (Some g)
  then have "mEntityNum g = s_number touch"
    unfolding g2_collision_def by (rule g2_best_Some)
  with Some show ?thesis
    by (auto simp: g2_refine_def g2_wanted_def g2_collision_def)
qed

lemma candidate_unwanted:
  assumes "\<not> g2_wanted K clip touch"
  shows "clip_candidate K X clip touch =
     clip\<lparr>trace := fst (clip_aggregate (trace clip) (exact_trace K X clip touch) (s_number touch))\<rparr>"
  using assms by (simp add: clip_candidate_def g2_refine_cases Let_def split: prod.splits)

text \<open>
  Unless the test puts the old trace back, the clip trace after a candidate has the flags,
  the fraction and the entity that the aggregation gave it.
\<close>

lemma candidate_kept:
  assumes "\<not> (g2_wanted K clip touch \<and> g2_collision K X clip touch = None)"
  shows "allsolid (trace (clip_candidate K X clip touch)) =
           allsolid (fst (clip_aggregate (trace clip) (exact_trace K X clip touch) (s_number touch)))"
    and "startsolid (trace (clip_candidate K X clip touch)) =
           startsolid (fst (clip_aggregate (trace clip) (exact_trace K X clip touch) (s_number touch)))"
    and "fraction (trace (clip_candidate K X clip touch)) =
           fraction (fst (clip_aggregate (trace clip) (exact_trace K X clip touch) (s_number touch)))"
    and "entityNum (trace (clip_candidate K X clip touch)) =
           entityNum (fst (clip_aggregate (trace clip) (exact_trace K X clip touch) (s_number touch)))"
  using assms
  by (auto simp: clip_candidate_def g2_refine_cases Let_def split: prod.splits option.splits)

text \<open>When the test puts the old trace back, the candidate has changed nothing.\<close>

lemma candidate_rollback:
  assumes "g2_wanted K clip touch" "g2_collision K X clip touch = None"
    and "entityNum (snd (clip_aggregate (trace clip) (exact_trace K X clip touch) (s_number touch)))
           = s_number touch"
  shows "clip_candidate K X clip touch = clip"
  using assms by (auto simp: clip_candidate_def g2_refine_cases Let_def split: prod.splits)

text \<open>
  A candidate whose exact trace is not solid, at the start or all along, leaves the clip
  trace not solid all along, and its fraction is the old one or that of the candidate.
\<close>

lemma candidate_not_solid:
  assumes "\<not> allsolid (exact_trace K X clip touch)" "\<not> startsolid (exact_trace K X clip touch)"
    and "\<not> allsolid (trace clip)"
  shows "\<not> allsolid (trace (clip_candidate K X clip touch))"
    and "fraction (trace (clip_candidate K X clip touch)) = fraction (trace clip) \<or>
         fraction (trace (clip_candidate K X clip touch)) = fraction (exact_trace K X clip touch)"
  using assms
  by (auto simp: clip_candidate_def g2_refine_cases clip_aggregate_def Let_def
      split: prod.splits option.splits)

lemma candidate_worse:
  assumes "\<not> allsolid (exact_trace K X clip touch)" "\<not> startsolid (exact_trace K X clip touch)"
    and "\<not> fraction (exact_trace K X clip touch) < fraction (trace clip)"
  shows "allsolid (trace (clip_candidate K X clip touch)) = allsolid (trace clip)"
    and "fraction (trace (clip_candidate K X clip touch)) = fraction (trace clip)"
    and "entityNum (trace (clip_candidate K X clip touch)) = entityNum (trace clip)"
  using assms
  by (auto simp: clip_candidate_def g2_refine_cases aggregate_worse Let_def
      split: prod.splits option.splits)

lemma candidate_startsolid:
  "startsolid (trace clip) \<Longrightarrow> startsolid (trace (clip_candidate K X clip touch))"
  using aggregate_startsolid [of "trace clip" "exact_trace K X clip touch" "s_number touch"]
  by (auto simp: clip_candidate_def g2_refine_cases Let_def split: prod.splits option.splits)

lemma loop_startsolid:
  "startsolid (trace clip) \<Longrightarrow>
     startsolid (trace (fst (clip_loop K X ents pon tos ts (clip, tested))))"
  by (induction ts arbitrary: clip tested) (simp_all add: candidate_startsolid)

subsection \<open>A candidate that is solid all along\<close>

text \<open>
  C2, as the code has it. A candidate that is reached and not skipped, whose exact
  trace is solid all along, and for which the Ghoul2 test does not put the old trace
  back: the clip trace then has \<open>allsolid\<close> set and the candidate is the last one
  handed to the exact clip, whatever follows it in the list. The fraction of the clip
  trace is 0 when that of the exact trace is, as it is in a trace that is solid all along.
  The hit entity is the candidate when the fraction of the exact trace is below the best
  fraction before it. The test puts the old trace back when it is wanted for the
  candidate and records no hit of it.
\<close>

theorem C2_allsolid_stops:
  assumes "\<not> allsolid (trace clip)"
    and "\<not> skip_entity K clip passOwnerNum thisOwnerShared t (ents ! t)"
    and "allsolid (exact_trace K X clip (ents ! t))"
    and "\<not> (g2_wanted K clip (ents ! t) \<and> g2_collision K X clip (ents ! t) = None)"
  shows "\<exists>clip'. clip_loop K X ents passOwnerNum thisOwnerShared (t # ts) (clip, tested) =
                    (clip', tested @ [t]) \<and>
           allsolid (trace clip') \<and>
           (fraction (exact_trace K X clip (ents ! t)) = 0 \<and> 0 \<le> fraction (trace clip) \<longrightarrow>
              fraction (trace clip') = 0) \<and>
           (fraction (exact_trace K X clip (ents ! t)) < fraction (trace clip) \<longrightarrow>
              entityNum (trace clip') = s_number (ents ! t))"
proof -
  let ?c = "clip_candidate K X clip (ents ! t)"
  let ?a = "fst (clip_aggregate (trace clip) (exact_trace K X clip (ents ! t))
                  (s_number (ents ! t)))"
  have "allsolid ?a \<and>
      (fraction (exact_trace K X clip (ents ! t)) = 0 \<and> 0 \<le> fraction (trace clip) \<longrightarrow>
         fraction ?a = 0) \<and>
      (fraction (exact_trace K X clip (ents ! t)) < fraction (trace clip) \<longrightarrow>
         entityNum ?a = s_number (ents ! t))"
    using assms(3) by (rule aggregate_allsolid)
  then have a: "allsolid (trace ?c) \<and>
      (fraction (exact_trace K X clip (ents ! t)) = 0 \<and> 0 \<le> fraction (trace clip) \<longrightarrow>
         fraction (trace ?c) = 0) \<and>
      (fraction (exact_trace K X clip (ents ! t)) < fraction (trace clip) \<longrightarrow>
         entityNum (trace ?c) = s_number (ents ! t))"
    unfolding candidate_kept [OF assms(4)] .
  have "clip_loop K X ents passOwnerNum thisOwnerShared (t # ts) (clip, tested) =
        (?c, tested @ [t])"
    using assms(1,2) a by (simp add: clip_loop_allsolid)
  with a show ?thesis by blast
qed

text \<open>
  The last hypothesis is needed: when the test is wanted for such a candidate and records
  no hit of it, the candidate changes nothing.
\<close>

lemma allsolid_rolled_back:
  assumes "allsolid (exact_trace K X clip touch)"
    and "g2_wanted K clip touch" "g2_collision K X clip touch = None"
  shows "clip_candidate K X clip touch = clip"
  using assms(2,3) aggregate_local_solid [OF assms(1)] by (rule candidate_rollback)

text \<open>
  The theorem at a sweep that asks for the Ghoul2 test, with a test that records a hit:
  entity 2, which has a Ghoul2 model, is solid all along with fraction 0, entities 0 and 1
  follow it in the list and are not tested.
\<close>

theorem C2_allsolid_stops_witness:
  "\<exists>clip'. clip_loop K0 X_mesh ents0 (- 1) True [2, 0, 1] (clip0\<lparr>traceFlags := 1\<rparr>, []) =
              (clip', [2]) \<and>
      allsolid (trace clip') \<and> fraction (trace clip') = 0 \<and> entityNum (trace clip') = 2"
proof -
  let ?c = "clip0\<lparr>traceFlags := 1\<rparr>"
  have h: "\<not> allsolid (trace ?c)" "\<not> skip_entity K0 ?c (- 1) True 2 (ents0 ! 2)"
    "allsolid (exact_trace K0 X_mesh ?c (ents0 ! 2))"
    "\<not> (g2_wanted K0 ?c (ents0 ! 2) \<and> g2_collision K0 X_mesh ?c (ents0 ! 2) = None)"
    by code_simp+
  have f: "fraction (exact_trace K0 X_mesh ?c (ents0 ! 2)) = 0 \<and> 0 \<le> fraction (trace ?c)"
    "fraction (exact_trace K0 X_mesh ?c (ents0 ! 2)) < fraction (trace ?c)"
    "s_number (ents0 ! 2) = 2"
    by code_simp+
  from C2_allsolid_stops [OF h, of "[0, 1]" "[]"] f show ?thesis
    by auto
qed

text \<open>
  The claim as stated fails when the Ghoul2 test puts the old trace back: with
  \<^verbatim>\<open>G2TRFLAG_DOGHOULTRACE\<close> set, entity 2 is solid all along in its exact trace, the
  Ghoul2 test records no hit and restores the old trace, and entity 0 is tested after it.
\<close>

theorem C2_counterexample:
  "\<not> skip_entity K0 (clip0\<lparr>traceFlags := 1\<rparr>) (- 1) True 2 (ents0 ! 2)
   \<and> allsolid (exact_trace K0 X0 (clip0\<lparr>traceFlags := 1\<rparr>) (ents0 ! 2))
   \<and> fraction (exact_trace K0 X0 (clip0\<lparr>traceFlags := 1\<rparr>) (ents0 ! 2)) = 0
   \<and> snd (clip_loop K0 X0 ents0 (- 1) True [2, 0] (clip0\<lparr>traceFlags := 1\<rparr>, [])) = [2, 0]
   \<and> \<not> allsolid (trace (fst (clip_loop K0 X0 ents0 (- 1) True [2, 0]
          (clip0\<lparr>traceFlags := 1\<rparr>, []))))
   \<and> fraction (trace (fst (clip_loop K0 X0 ents0 (- 1) True [2, 0]
          (clip0\<lparr>traceFlags := 1\<rparr>, [])))) = 3 / 10
   \<and> entityNum (trace (fst (clip_loop K0 X0 ents0 (- 1) True [2, 0]
          (clip0\<lparr>traceFlags := 1\<rparr>, [])))) = 0"
  by code_simp

text \<open>
  Without any Ghoul2 test, the entity of an all-solid candidate is still not recorded
  when an earlier candidate already had fraction 0: entity 3 touches the start
  (fraction 0, not solid), entity 2 is solid all along, and the hit entity stays 3. The
  branch for \<^verbatim>\<open>startsolid\<close> writes \<^verbatim>\<open>clip->trace.entityNum\<close>, the one for
  \<^verbatim>\<open>allsolid\<close> only the local trace.
\<close>

lemma allsolid_entityNum_not_recorded:
  "allsolid (exact_trace K0 X0 clip0 (ents0 ! 2))
   \<and> snd (clip_loop K0 X0 ents0 (- 1) True [3, 2] (clip0, [])) = [3, 2]
   \<and> allsolid (trace (fst (clip_loop K0 X0 ents0 (- 1) True [3, 2] (clip0, []))))
   \<and> entityNum (trace (fst (clip_loop K0 X0 ents0 (- 1) True [3, 2] (clip0, [])))) = 3
   \<and> s_number (ents0 ! 2) = 2"
  by code_simp

subsection \<open>A candidate with a better fraction\<close>

text \<open>
  C3, as the code has it. A candidate is reached and not skipped, and the fraction of its
  exact trace is below the fraction of the clip trace. The loop goes on with the clip
  trace that the candidate leaves. When the Ghoul2 test is not wanted for the candidate,
  this is the exact trace with the number of the candidate as its entity, and its
  \<open>startsolid\<close> is that of the clip trace before or that of the exact trace. When the
  test is wanted and records a hit of the candidate, it is the same trace with the end
  and the normal of the hit, and with the surface of the hit if the flags ask for it.
  When the test is wanted and records no hit of the candidate, it is the clip trace as it
  was before the candidate. In every case, and for every list of candidates, a
  \<open>startsolid\<close> that is set before the loop is set after it.
\<close>

theorem C3_better_fraction:
  "(\<not> allsolid (trace clip) \<and> \<not> skip_entity K clip pon tos t (ents ! t) \<and>
    fraction (exact_trace K X clip (ents ! t)) < fraction (trace clip) \<longrightarrow>
      clip_loop K X ents pon tos (t # ts) (clip, tested) =
        clip_loop K X ents pon tos ts
          (clip\<lparr>trace :=
             (let tr = exact_trace K X clip (ents ! t);
                  r = tr\<lparr>entityNum := s_number (ents ! t),
                         startsolid := (startsolid (trace clip) \<or> startsolid tr)\<rparr>
              in if g2_wanted K clip (ents ! t) then
                   (case g2_collision K X clip (ents ! t) of
                      None \<Rightarrow> trace clip
                    | Some g \<Rightarrow>
                        r\<lparr>endpos := mCollisionPosition g, plane_normal := mCollisionNormal g,
                          surfaceFlags :=
                            (if traceFlags clip AND G2TRFLAG_GETSURFINDEX K \<noteq> 0
                             then mSurfaceIndex g else surfaceFlags r)\<rparr>)
                 else r)\<rparr>,
           tested @ [t])) \<and>
   (startsolid (trace clip) \<longrightarrow>
      startsolid (trace (fst (clip_loop K X ents pon tos ts (clip, tested)))))"
proof (intro conjI impI)
  assume h: "\<not> allsolid (trace clip) \<and> \<not> skip_entity K clip pon tos t (ents ! t) \<and>
    fraction (exact_trace K X clip (ents ! t)) < fraction (trace clip)"
  let ?tr = "exact_trace K X clip (ents ! t)"
  let ?r = "?tr\<lparr>entityNum := s_number (ents ! t),
                startsolid := (startsolid (trace clip) \<or> startsolid ?tr)\<rparr>"
  have agg: "clip_aggregate (trace clip) ?tr (s_number (ents ! t)) =
      (?r, ?tr\<lparr>entityNum := s_number (ents ! t)\<rparr>)"
    using h by (simp add: aggregate_replace)
  have "clip_candidate K X clip (ents ! t) =
      clip\<lparr>trace :=
        (if g2_wanted K clip (ents ! t) then
           (case g2_collision K X clip (ents ! t) of
              None \<Rightarrow> trace clip
            | Some g \<Rightarrow>
                ?r\<lparr>endpos := mCollisionPosition g, plane_normal := mCollisionNormal g,
                   surfaceFlags :=
                     (if traceFlags clip AND G2TRFLAG_GETSURFINDEX K \<noteq> 0
                      then mSurfaceIndex g else surfaceFlags ?r)\<rparr>)
         else ?r)\<rparr>"
    by (simp add: clip_candidate_def agg g2_refine_cases Let_def split: option.splits)
  then show "clip_loop K X ents pon tos (t # ts) (clip, tested) =
        clip_loop K X ents pon tos ts
          (clip\<lparr>trace :=
             (let tr = exact_trace K X clip (ents ! t);
                  r = tr\<lparr>entityNum := s_number (ents ! t),
                         startsolid := (startsolid (trace clip) \<or> startsolid tr)\<rparr>
              in if g2_wanted K clip (ents ! t) then
                   (case g2_collision K X clip (ents ! t) of
                      None \<Rightarrow> trace clip
                    | Some g \<Rightarrow>
                        r\<lparr>endpos := mCollisionPosition g, plane_normal := mCollisionNormal g,
                          surfaceFlags :=
                            (if traceFlags clip AND G2TRFLAG_GETSURFINDEX K \<noteq> 0
                             then mSurfaceIndex g else surfaceFlags r)\<rparr>)
                 else r)\<rparr>,
           tested @ [t])"
    using h by (simp add: Let_def)
next
  assume "startsolid (trace clip)"
  then show "startsolid (trace (fst (clip_loop K X ents pon tos ts (clip, tested))))"
    by (rule loop_startsolid)
qed

text \<open>
  The theorem at a clip trace that started solid: a hit of entity 0 at 3/10, with a
  Ghoul2 test that records a hit, replaces it and keeps \<open>startsolid\<close>; and
  \<open>startsolid\<close> is still set after entities 1 and 0.
\<close>

theorem C3_better_fraction_witness:
  "fst (clip_loop K0 X_mesh ents_g2 (- 1) True [0]
     (clip0\<lparr>traceFlags := 1, trace := trace clip0\<lparr>startsolid := True\<rparr>\<rparr>, [])) =
   clip0\<lparr>traceFlags := 1,
     trace := \<lparr>allsolid = False, startsolid = True, fraction = 3 / 10, endpos = Vec3 31 2 3,
       plane_normal = Vec3 0 1 0, surfaceFlags = 0, contents = 1, entityNum = 0\<rparr>\<rparr>
   \<and> startsolid (trace (fst (clip_loop K0 X0 ents0 (- 1) True [1, 0]
        (clip0\<lparr>trace := trace clip0\<lparr>startsolid := True\<rparr>\<rparr>, []))))"
proof -
  let ?c = "clip0\<lparr>traceFlags := 1, trace := trace clip0\<lparr>startsolid := True\<rparr>\<rparr>"
  have h: "\<not> allsolid (trace ?c) \<and> \<not> skip_entity K0 ?c (- 1) True 0 (ents_g2 ! 0) \<and>
      fraction (exact_trace K0 X_mesh ?c (ents_g2 ! 0)) < fraction (trace ?c)"
    by code_simp
  have r: "(let tr = exact_trace K0 X_mesh ?c (ents_g2 ! 0);
                r = tr\<lparr>entityNum := s_number (ents_g2 ! 0),
                       startsolid := (startsolid (trace ?c) \<or> startsolid tr)\<rparr>
            in if g2_wanted K0 ?c (ents_g2 ! 0) then
                 (case g2_collision K0 X_mesh ?c (ents_g2 ! 0) of
                    None \<Rightarrow> trace ?c
                  | Some g \<Rightarrow>
                      r\<lparr>endpos := mCollisionPosition g, plane_normal := mCollisionNormal g,
                        surfaceFlags :=
                          (if traceFlags ?c AND G2TRFLAG_GETSURFINDEX K0 \<noteq> 0
                           then mSurfaceIndex g else surfaceFlags r)\<rparr>)
               else r) =
      \<lparr>allsolid = False, startsolid = True, fraction = 3 / 10, endpos = Vec3 31 2 3,
        plane_normal = Vec3 0 1 0, surfaceFlags = 0, contents = 1, entityNum = 0\<rparr>"
    by code_simp
  from C3_better_fraction [of ?c K0 "- 1" True 0 ents_g2 X_mesh "[]" "[]"] h
  have "clip_loop K0 X_mesh ents_g2 (- 1) True [0] (?c, []) =
      (?c\<lparr>trace := \<lparr>allsolid = False, startsolid = True, fraction = 3 / 10,
          endpos = Vec3 31 2 3, plane_normal = Vec3 0 1 0, surfaceFlags = 0, contents = 1,
          entityNum = 0\<rparr>\<rparr>, [0])"
    unfolding r by simp
  moreover have "startsolid (trace (clip0\<lparr>trace := trace clip0\<lparr>startsolid := True\<rparr>\<rparr>))"
    by simp
  with C3_better_fraction [of "clip0\<lparr>trace := trace clip0\<lparr>startsolid := True\<rparr>\<rparr>" K0 "- 1" True
      0 ents0 X0 "[1, 0]" "[]"]
  have "startsolid (trace (fst (clip_loop K0 X0 ents0 (- 1) True [1, 0]
        (clip0\<lparr>trace := trace clip0\<lparr>startsolid := True\<rparr>\<rparr>, []))))"
    by blast
  ultimately show ?thesis
    by (simp add: clip0_def)
qed

text \<open>
  The claim as stated fails when the Ghoul2 test is made. Entity 0 has a Ghoul2 model
  and is hit at 3/10 of a sweep that asks for the test; the clip trace before it has
  fraction 1. With a test that records no hit, the candidate is handed to the exact clip
  and the clip trace stays as it was. With a test that records a hit, the end of the clip
  trace is the place of the hit and not the end of the exact trace.
\<close>

theorem C3_counterexample:
  "\<not> skip_entity K0 (clip0\<lparr>traceFlags := 1\<rparr>) (- 1) True 0 (ents_g2 ! 0)
   \<and> fraction (exact_trace K0 X0 (clip0\<lparr>traceFlags := 1\<rparr>) (ents_g2 ! 0)) = 3 / 10
   \<and> fraction (trace (clip0\<lparr>traceFlags := 1\<rparr>)) = 1
   \<and> snd (clip_loop K0 X0 ents_g2 (- 1) True [0] (clip0\<lparr>traceFlags := 1\<rparr>, [])) = [0]
   \<and> fraction (trace (fst (clip_loop K0 X0 ents_g2 (- 1) True [0]
        (clip0\<lparr>traceFlags := 1\<rparr>, [])))) = 1
   \<and> entityNum (trace (fst (clip_loop K0 X0 ents_g2 (- 1) True [0]
        (clip0\<lparr>traceFlags := 1\<rparr>, [])))) = 1023
   \<and> s_number (ents_g2 ! 0) = 0
   \<and> endpos (exact_trace K0 X_mesh (clip0\<lparr>traceFlags := 1\<rparr>) (ents_g2 ! 0)) = Vec3 30 0 0
   \<and> endpos (trace (fst (clip_loop K0 X_mesh ents_g2 (- 1) True [0]
        (clip0\<lparr>traceFlags := 1\<rparr>, [])))) = Vec3 31 2 3"
  by code_simp

subsection \<open>The candidates owned by the pass entity\<close>

text \<open>
  C4, as the code has it. The trace has a pass entity and the owner of the candidate at
  the head of the list is that entity. When the clip trace is solid all along, the loop
  ends and the candidate is not looked at. Otherwise, if the candidate is not the pass
  entity itself, its owner is not shared (\<^verbatim>\<open>SVF_OWNERNOTSHARED\<close>) and the mask is
  \<^verbatim>\<open>MASK_SHOT\<close> or \<^verbatim>\<open>MASK_SHOT|CONTENTS_LIGHTSABER\<close>, then none of the tests on the pass
  entity and the owners ignores it, and the loop hands it to the exact clip exactly when
  it passes the tests on its contents. In every other case it is ignored, and the loop
  goes on without it.
\<close>

theorem C4_owner_rule:
  assumes "passEntityNum clip \<noteq> ENTITYNUM_NONE K"
    and "r_ownerNum (ents ! t) = passEntityNum clip"
  shows "(allsolid (trace clip) \<longrightarrow>
            clip_loop K X ents pon tos (t # ts) (clip, tested) = (clip, tested)) \<and>
         (\<not> allsolid (trace clip) \<and> int t \<noteq> passEntityNum clip \<and>
          r_svFlags (ents ! t) AND SVF_OWNERNOTSHARED K \<noteq> 0 \<and>
          (contentmask clip = MASK_SHOT K \<or>
           contentmask clip = (MASK_SHOT K OR CONTENTS_LIGHTSABER K)) \<longrightarrow>
            \<not> ignore_entity K clip pon tos t (ents ! t) \<and>
            clip_loop K X ents pon tos (t # ts) (clip, tested) =
              (if contentmask clip AND r_contents (ents ! t) = 0 \<or>
                  (r_contents (ents ! t) > 0 \<and>
                   r_contents (ents ! t) AND CONTENTS_NOSHOT K \<noteq> 0)
               then clip_loop K X ents pon tos ts (clip, tested)
               else clip_loop K X ents pon tos ts
                      (clip_candidate K X clip (ents ! t), tested @ [t]))) \<and>
         (\<not> allsolid (trace clip) \<and>
          \<not> (int t \<noteq> passEntityNum clip \<and>
             r_svFlags (ents ! t) AND SVF_OWNERNOTSHARED K \<noteq> 0 \<and>
             (contentmask clip = MASK_SHOT K \<or>
              contentmask clip = (MASK_SHOT K OR CONTENTS_LIGHTSABER K))) \<longrightarrow>
            ignore_entity K clip pon tos t (ents ! t) \<and>
            clip_loop K X ents pon tos (t # ts) (clip, tested) =
              clip_loop K X ents pon tos ts (clip, tested))"
proof (intro conjI impI)
  assume "allsolid (trace clip)"
  then show "clip_loop K X ents pon tos (t # ts) (clip, tested) = (clip, tested)"
    by simp
next
  assume h: "\<not> allsolid (trace clip) \<and> int t \<noteq> passEntityNum clip \<and>
          r_svFlags (ents ! t) AND SVF_OWNERNOTSHARED K \<noteq> 0 \<and>
          (contentmask clip = MASK_SHOT K \<or>
           contentmask clip = (MASK_SHOT K OR CONTENTS_LIGHTSABER K))"
  show i: "\<not> ignore_entity K clip pon tos t (ents ! t)"
    using assms h unfolding ignore_entity_def by auto
  have "skip_entity K clip pon tos t (ents ! t) \<longleftrightarrow>
      contentmask clip AND r_contents (ents ! t) = 0 \<or>
      (r_contents (ents ! t) > 0 \<and> r_contents (ents ! t) AND CONTENTS_NOSHOT K \<noteq> 0)"
    using i h unfolding skip_entity_def by auto
  then show "clip_loop K X ents pon tos (t # ts) (clip, tested) =
      (if contentmask clip AND r_contents (ents ! t) = 0 \<or>
          (r_contents (ents ! t) > 0 \<and> r_contents (ents ! t) AND CONTENTS_NOSHOT K \<noteq> 0)
       then clip_loop K X ents pon tos ts (clip, tested)
       else clip_loop K X ents pon tos ts (clip_candidate K X clip (ents ! t), tested @ [t]))"
    using h by simp
next
  assume h: "\<not> allsolid (trace clip) \<and>
          \<not> (int t \<noteq> passEntityNum clip \<and>
             r_svFlags (ents ! t) AND SVF_OWNERNOTSHARED K \<noteq> 0 \<and>
             (contentmask clip = MASK_SHOT K \<or>
              contentmask clip = (MASK_SHOT K OR CONTENTS_LIGHTSABER K)))"
  show i: "ignore_entity K clip pon tos t (ents ! t)"
    using assms h unfolding ignore_entity_def by auto
  then have "skip_entity K clip pon tos t (ents ! t)"
    by (simp add: skip_entity_def)
  then show "clip_loop K X ents pon tos (t # ts) (clip, tested) =
      clip_loop K X ents pon tos ts (clip, tested)"
    using h by simp
qed

text \<open>
  The theorem at the entities that entity 5 owns, with entity 5 as the pass entity. Under
  \<^verbatim>\<open>MASK_SHOT\<close> the mine, entity 4, is handed to the exact clip and the thrown saber,
  entity 6, is not. Under the mask \<^verbatim>\<open>CONTENTS_SOLID\<close> the mine is ignored. After a
  candidate that is solid all along the mine is not looked at.
\<close>

theorem C4_owner_rule_witness:
  "snd (clip_loop K0 X0 ents_owned (- 1) True [4] (clip0, [])) = [4]
   \<and> snd (clip_loop K0 X0 ents_owned (- 1) True [6] (clip0, [])) = []
   \<and> ignore_entity K0 (clip0\<lparr>contentmask := 1\<rparr>) (- 1) True 4 (ents_owned ! 4)
   \<and> snd (clip_loop K0 X0 ents_owned (- 1) True [4] (clip0\<lparr>contentmask := 1\<rparr>, [])) = []
   \<and> clip_loop K0 X0 ents_owned (- 1) True [4]
        (clip0\<lparr>trace := trace clip0\<lparr>allsolid := True\<rparr>\<rparr>, []) =
      (clip0\<lparr>trace := trace clip0\<lparr>allsolid := True\<rparr>\<rparr>, [])"
proof -
  have o: "passEntityNum clip0 \<noteq> ENTITYNUM_NONE K0"
    "r_ownerNum (ents_owned ! 4) = passEntityNum clip0"
    "r_ownerNum (ents_owned ! 6) = passEntityNum clip0"
    by code_simp+
  have m: "\<not> allsolid (trace clip0) \<and> int 4 \<noteq> passEntityNum clip0 \<and>
      r_svFlags (ents_owned ! 4) AND SVF_OWNERNOTSHARED K0 \<noteq> 0 \<and>
      (contentmask clip0 = MASK_SHOT K0 \<or>
       contentmask clip0 = (MASK_SHOT K0 OR CONTENTS_LIGHTSABER K0))"
    "\<not> (contentmask clip0 AND r_contents (ents_owned ! 4) = 0 \<or>
        (r_contents (ents_owned ! 4) > 0 \<and>
         r_contents (ents_owned ! 4) AND CONTENTS_NOSHOT K0 \<noteq> 0))"
    by code_simp+
  have s: "\<not> allsolid (trace clip0) \<and> int 6 \<noteq> passEntityNum clip0 \<and>
      r_svFlags (ents_owned ! 6) AND SVF_OWNERNOTSHARED K0 \<noteq> 0 \<and>
      (contentmask clip0 = MASK_SHOT K0 \<or>
       contentmask clip0 = (MASK_SHOT K0 OR CONTENTS_LIGHTSABER K0))"
    "contentmask clip0 AND r_contents (ents_owned ! 6) = 0"
    by code_simp+
  have g: "\<not> allsolid (trace (clip0\<lparr>contentmask := 1\<rparr>)) \<and>
      \<not> (int 4 \<noteq> passEntityNum (clip0\<lparr>contentmask := 1\<rparr>) \<and>
         r_svFlags (ents_owned ! 4) AND SVF_OWNERNOTSHARED K0 \<noteq> 0 \<and>
         (contentmask (clip0\<lparr>contentmask := 1\<rparr>) = MASK_SHOT K0 \<or>
          contentmask (clip0\<lparr>contentmask := 1\<rparr>) = (MASK_SHOT K0 OR CONTENTS_LIGHTSABER K0)))"
    by code_simp
  have a: "allsolid (trace (clip0\<lparr>trace := trace clip0\<lparr>allsolid := True\<rparr>\<rparr>))"
    by simp
  from C4_owner_rule [OF o(1,2), where X = X0 and pon = "- 1" and tos = True and ts = "[]"
      and tested = "[]"] m
  have 1: "snd (clip_loop K0 X0 ents_owned (- 1) True [4] (clip0, [])) = [4]"
    by simp
  from C4_owner_rule [OF o(1,3), where X = X0 and pon = "- 1" and tos = True and ts = "[]"
      and tested = "[]"] s
  have 2: "snd (clip_loop K0 X0 ents_owned (- 1) True [6] (clip0, [])) = []"
    by simp
  from C4_owner_rule [where clip = "clip0\<lparr>contentmask := 1\<rparr>" and K = K0 and ents = ents_owned
      and t = 4 and X = X0 and pon = "- 1" and tos = True and ts = "[]" and tested = "[]"]
    o(1,2) g
  have 3: "ignore_entity K0 (clip0\<lparr>contentmask := 1\<rparr>) (- 1) True 4 (ents_owned ! 4)
      \<and> snd (clip_loop K0 X0 ents_owned (- 1) True [4] (clip0\<lparr>contentmask := 1\<rparr>, [])) = []"
    by simp
  from C4_owner_rule [where clip = "clip0\<lparr>trace := trace clip0\<lparr>allsolid := True\<rparr>\<rparr>" and K = K0
      and ents = ents_owned and t = 4 and X = X0 and pon = "- 1" and tos = True and ts = "[]"
      and tested = "[]"] o(1,2) a
  have 4: "clip_loop K0 X0 ents_owned (- 1) True [4]
        (clip0\<lparr>trace := trace clip0\<lparr>allsolid := True\<rparr>\<rparr>, []) =
      (clip0\<lparr>trace := trace clip0\<lparr>allsolid := True\<rparr>\<rparr>, [])"
    by simp
  from 1 2 3 4 show ?thesis by blast
qed

text \<open>
  The claim as stated fails at three candidates that entity 5 owns and does not share,
  under \<^verbatim>\<open>MASK_SHOT\<close> with entity 5 as the pass entity. The thrown saber, entity 6, passes
  the tests on the owners and fails the test on its contents (\<^verbatim>\<open>CONTENTS_LIGHTSABER\<close> is
  not in the mask): it never reaches the exact clip. Entity 5 itself is the pass entity
  and is ignored. The mine, entity 4, passes every test, and is still never handed to the
  exact clip when it follows entity 2, which is solid all along.
\<close>

theorem C4_counterexample:
  "passEntityNum clip0 \<noteq> ENTITYNUM_NONE K0
   \<and> contentmask clip0 = MASK_SHOT K0
   \<and> r_ownerNum (ents_owned ! 6) = passEntityNum clip0
   \<and> r_svFlags (ents_owned ! 6) AND SVF_OWNERNOTSHARED K0 \<noteq> 0
   \<and> snd (clip_loop K0 X0 ents_owned (- 1) True [6] (clip0, [])) = []
   \<and> r_ownerNum (ents_owned ! 5) = passEntityNum clip0
   \<and> r_svFlags (ents_owned ! 5) AND SVF_OWNERNOTSHARED K0 \<noteq> 0
   \<and> snd (clip_loop K0 X0 ents_owned (- 1) True [5] (clip0, [])) = []
   \<and> r_ownerNum (ents_owned ! 4) = passEntityNum clip0
   \<and> r_svFlags (ents_owned ! 4) AND SVF_OWNERNOTSHARED K0 \<noteq> 0
   \<and> \<not> skip_entity K0 clip0 (- 1) True 4 (ents_owned ! 4)
   \<and> snd (clip_loop K0 X0 ents_owned (- 1) True [2, 4] (clip0, [])) = [2]"
  by code_simp

subsection \<open>The nearer of two candidates\<close>

text \<open>
  The two candidates in either order, for the fraction and the entity: the nearer
  candidate \<open>a\<close> wins unless the Ghoul2 test puts the old trace back for it.
\<close>

lemma clip_loop_nearer:
  assumes na: "\<not> allsolid (trace clip)"
    and sa: "\<not> skip_entity K clip pon tos a (ents ! a)"
    and sb: "\<not> skip_entity K clip pon tos b (ents ! b)"
    and ta: "\<not> allsolid (exact_trace K X clip (ents ! a))"
            "\<not> startsolid (exact_trace K X clip (ents ! a))"
    and tb: "\<not> allsolid (exact_trace K X clip (ents ! b))"
            "\<not> startsolid (exact_trace K X clip (ents ! b))"
    and lt: "fraction (exact_trace K X clip (ents ! a)) < fraction (exact_trace K X clip (ents ! b))"
    and best: "fraction (exact_trace K X clip (ents ! a)) < fraction (trace clip)"
    and keep: "\<not> (g2_wanted K clip (ents ! a) \<and> g2_collision K X clip (ents ! a) = None)"
  shows "fraction (trace (fst (clip_loop K X ents pon tos [a, b] (clip, tested)))) =
           fraction (exact_trace K X clip (ents ! a)) \<and>
         entityNum (trace (fst (clip_loop K X ents pon tos [a, b] (clip, tested)))) =
           s_number (ents ! a)"
    and "fraction (trace (fst (clip_loop K X ents pon tos [b, a] (clip, tested)))) =
           fraction (exact_trace K X clip (ents ! a)) \<and>
         entityNum (trace (fst (clip_loop K X ents pon tos [b, a] (clip, tested)))) =
           s_number (ents ! a)"
proof -
  let ?ta = "exact_trace K X clip (ents ! a)"
  let ?tb = "exact_trace K X clip (ents ! b)"
  let ?ca = "clip_candidate K X clip (ents ! a)"
  let ?cb = "clip_candidate K X clip (ents ! b)"
  have a1: "allsolid (trace ?ca) = False" "fraction (trace ?ca) = fraction ?ta"
    "entityNum (trace ?ca) = s_number (ents ! a)"
    unfolding candidate_kept [OF keep] using ta best by (simp_all add: aggregate_better)
  have "\<not> fraction (exact_trace K X ?ca (ents ! b)) < fraction (trace ?ca)"
    using lt by (simp add: a1)
  from candidate_worse [of K X ?ca "ents ! b", OF _ _ this] tb
  have ab: "fraction (trace (clip_candidate K X ?ca (ents ! b))) = fraction ?ta"
    "entityNum (trace (clip_candidate K X ?ca (ents ! b))) = s_number (ents ! a)"
    by (simp_all add: a1)
  show "fraction (trace (fst (clip_loop K X ents pon tos [a, b] (clip, tested)))) =
           fraction ?ta \<and>
         entityNum (trace (fst (clip_loop K X ents pon tos [a, b] (clip, tested)))) =
           s_number (ents ! a)"
    using na sa sb a1 ab by simp
  have b1: "\<not> allsolid (trace ?cb)"
    "fraction (trace ?cb) = fraction (trace clip) \<or> fraction (trace ?cb) = fraction ?tb"
    using candidate_not_solid [OF tb na] by blast+
  have better: "fraction (exact_trace K X ?cb (ents ! a)) < fraction (trace ?cb)"
    using b1(2) lt best by auto
  have keep': "\<not> (g2_wanted K ?cb (ents ! a) \<and> g2_collision K X ?cb (ents ! a) = None)"
    using keep by simp
  have ba: "fraction (trace (clip_candidate K X ?cb (ents ! a))) = fraction ?ta"
    "entityNum (trace (clip_candidate K X ?cb (ents ! a))) = s_number (ents ! a)"
    unfolding candidate_kept [OF keep'] using ta better by (simp_all add: aggregate_better)
  show "fraction (trace (fst (clip_loop K X ents pon tos [b, a] (clip, tested)))) =
           fraction ?ta \<and>
         entityNum (trace (fst (clip_loop K X ents pon tos [b, a] (clip, tested)))) =
           s_number (ents ! a)"
    using na sa sb b1(1) ba by simp
qed

text \<open>The two candidates in either order, when the Ghoul2 test is wanted for neither.\<close>

lemma clip_loop_two:
  assumes na: "\<not> allsolid (trace clip)"
    and ga: "\<not> g2_wanted K clip (ents ! a)" and gb: "\<not> g2_wanted K clip (ents ! b)"
    and sa: "\<not> skip_entity K clip pon tos a (ents ! a)"
    and sb: "\<not> skip_entity K clip pon tos b (ents ! b)"
    and ta: "\<not> allsolid (exact_trace K X clip (ents ! a))"
            "\<not> startsolid (exact_trace K X clip (ents ! a))"
    and tb: "\<not> allsolid (exact_trace K X clip (ents ! b))"
            "\<not> startsolid (exact_trace K X clip (ents ! b))"
    and lt: "fraction (exact_trace K X clip (ents ! a)) < fraction (exact_trace K X clip (ents ! b))"
    and best: "fraction (exact_trace K X clip (ents ! a)) < fraction (trace clip)"
  shows "fst (clip_loop K X ents pon tos [a, b] (clip, tested)) =
           clip\<lparr>trace := (exact_trace K X clip (ents ! a))
             \<lparr>entityNum := s_number (ents ! a), startsolid := startsolid (trace clip)\<rparr>\<rparr>"
    and "fst (clip_loop K X ents pon tos [b, a] (clip, tested)) =
           clip\<lparr>trace := (exact_trace K X clip (ents ! a))
             \<lparr>entityNum := s_number (ents ! a), startsolid := startsolid (trace clip)\<rparr>\<rparr>"
proof -
  let ?ta = "exact_trace K X clip (ents ! a)"
  let ?tb = "exact_trace K X clip (ents ! b)"
  let ?r = "?ta\<lparr>entityNum := s_number (ents ! a), startsolid := startsolid (trace clip)\<rparr>"
  have ca: "clip_candidate K X clip (ents ! a) = clip\<lparr>trace := ?r\<rparr>"
    using ga ta best by (simp add: candidate_unwanted aggregate_better)
  have cab: "clip_candidate K X (clip\<lparr>trace := ?r\<rparr>) (ents ! b) = clip\<lparr>trace := ?r\<rparr>"
    using gb tb lt by (simp add: candidate_unwanted aggregate_worse)
  show "fst (clip_loop K X ents pon tos [a, b] (clip, tested)) = clip\<lparr>trace := ?r\<rparr>"
    using na sa sb ta by (simp add: ca cab)
  show "fst (clip_loop K X ents pon tos [b, a] (clip, tested)) = clip\<lparr>trace := ?r\<rparr>"
  proof (cases "fraction ?tb < fraction (trace clip)")
    case True
    let ?q = "?tb\<lparr>entityNum := s_number (ents ! b), startsolid := startsolid (trace clip)\<rparr>"
    have cb: "clip_candidate K X clip (ents ! b) = clip\<lparr>trace := ?q\<rparr>"
      using gb tb True by (simp add: candidate_unwanted aggregate_better)
    have cba: "clip_candidate K X (clip\<lparr>trace := ?q\<rparr>) (ents ! a) = clip\<lparr>trace := ?r\<rparr>"
      using ga ta lt by (simp add: candidate_unwanted aggregate_better)
    show ?thesis
      using na sa sb tb by (simp add: cb cba)
  next
    case False
    have cb: "clip_candidate K X clip (ents ! b) = clip"
      using gb tb False by (simp add: candidate_unwanted aggregate_worse)
    show ?thesis
      using na sa sb by (simp add: cb ca)
  qed
qed

text \<open>
  C6, as the code has it. The candidates of the list that are not skipped are \<open>a\<close> and
  \<open>b\<close>, in either order; their exact traces are not solid at the start or all along;
  the fraction of \<open>a\<close> is below that of \<open>b\<close> and below the fraction of the clip trace
  before the loop, which is the world trace and is not solid all along; and the Ghoul2
  test does not put the old trace back for \<open>a\<close>. Then the clip trace after the loop has
  the fraction of \<open>a\<close> and the number of \<open>a\<close> as its entity, in both orders. When the
  Ghoul2 test is wanted for neither candidate, the whole clip trace is the exact trace of
  \<open>a\<close> with the number of \<open>a\<close> as its entity and the \<open>startsolid\<close> of the world
  trace: the same trace for both orders.
\<close>

theorem C6_nearest_of_two:
  assumes two: "filter (\<lambda>t. \<not> skip_entity K clip pon tos t (ents ! t)) ts = [a, b] \<or>
                filter (\<lambda>t. \<not> skip_entity K clip pon tos t (ents ! t)) ts = [b, a]"
    and na: "\<not> allsolid (trace clip)"
    and ta: "\<not> allsolid (exact_trace K X clip (ents ! a))"
            "\<not> startsolid (exact_trace K X clip (ents ! a))"
    and tb: "\<not> allsolid (exact_trace K X clip (ents ! b))"
            "\<not> startsolid (exact_trace K X clip (ents ! b))"
    and lt: "fraction (exact_trace K X clip (ents ! a)) < fraction (exact_trace K X clip (ents ! b))"
    and best: "fraction (exact_trace K X clip (ents ! a)) < fraction (trace clip)"
    and keep: "\<not> (g2_wanted K clip (ents ! a) \<and> g2_collision K X clip (ents ! a) = None)"
  shows "fraction (trace (fst (clip_loop K X ents pon tos ts (clip, tested)))) =
           fraction (exact_trace K X clip (ents ! a)) \<and>
         entityNum (trace (fst (clip_loop K X ents pon tos ts (clip, tested)))) =
           s_number (ents ! a) \<and>
         (\<not> g2_wanted K clip (ents ! a) \<and> \<not> g2_wanted K clip (ents ! b) \<longrightarrow>
            fst (clip_loop K X ents pon tos ts (clip, tested)) =
              clip\<lparr>trace := (exact_trace K X clip (ents ! a))
                \<lparr>entityNum := s_number (ents ! a), startsolid := startsolid (trace clip)\<rparr>\<rparr>)"
proof -
  let ?P = "\<lambda>t. \<not> skip_entity K clip pon tos t (ents ! t)"
  have "a \<in> set (filter ?P ts)" "b \<in> set (filter ?P ts)"
    using two by (auto simp del: set_filter)
  then have sa: "?P a" and sb: "?P b"
    by simp_all
  have f: "fst (clip_loop K X ents pon tos ts (clip, tested)) =
           fst (clip_loop K X ents pon tos (filter ?P ts) (clip, tested))"
    by (rule clip_loop_filter)
  from two show ?thesis
  proof
    assume "filter ?P ts = [a, b]"
    then show ?thesis
      unfolding f
      using clip_loop_nearer(1) [OF na sa sb ta tb lt best keep, of tested]
        clip_loop_two(1) [OF na _ _ sa sb ta tb lt best, of tested]
      by simp
  next
    assume "filter ?P ts = [b, a]"
    then show ?thesis
      unfolding f
      using clip_loop_nearer(2) [OF na sa sb ta tb lt best keep, of tested]
        clip_loop_two(2) [OF na _ _ sa sb ta tb lt best, of tested]
      by simp
  qed
qed

text \<open>
  The theorem at a sweep that asks for the Ghoul2 test, with a test that records a hit:
  entity 1 (fraction 7/10) is listed before entity 0 (fraction 3/10), which has a Ghoul2
  model, and the result has the fraction and the number of entity 0. At the sweep
  \<open>clip0\<close>, which asks for no test, the result is the exact trace of entity 0.
\<close>

theorem C6_nearest_of_two_witness:
  "fraction (trace (fst (clip_loop K0 X_mesh ents_g2 (- 1) True [1, 0]
      (clip0\<lparr>traceFlags := 1\<rparr>, [])))) = 3 / 10
   \<and> entityNum (trace (fst (clip_loop K0 X_mesh ents_g2 (- 1) True [1, 0]
      (clip0\<lparr>traceFlags := 1\<rparr>, [])))) = 0
   \<and> fst (clip_loop K0 X0 ents0 (- 1) True [1, 0] (clip0, [])) =
       clip0\<lparr>trace := (hit_trace (Vec3 30 0 0))\<lparr>entityNum := 0\<rparr>\<rparr>"
proof -
  let ?c = "clip0\<lparr>traceFlags := 1\<rparr>"
  have 1: "fraction (trace (fst (clip_loop K0 X_mesh ents_g2 (- 1) True [1, 0] (?c, [])))) =
        fraction (exact_trace K0 X_mesh ?c (ents_g2 ! 0)) \<and>
      entityNum (trace (fst (clip_loop K0 X_mesh ents_g2 (- 1) True [1, 0] (?c, [])))) =
        s_number (ents_g2 ! 0) \<and>
      (\<not> g2_wanted K0 ?c (ents_g2 ! 0) \<and> \<not> g2_wanted K0 ?c (ents_g2 ! 1) \<longrightarrow>
         fst (clip_loop K0 X_mesh ents_g2 (- 1) True [1, 0] (?c, [])) =
           ?c\<lparr>trace := (exact_trace K0 X_mesh ?c (ents_g2 ! 0))
             \<lparr>entityNum := s_number (ents_g2 ! 0), startsolid := startsolid (trace ?c)\<rparr>\<rparr>)"
  proof (rule C6_nearest_of_two [where a = 0 and b = 1])
    show "filter (\<lambda>t. \<not> skip_entity K0 ?c (- 1) True t (ents_g2 ! t)) [1, 0] = [0, 1] \<or>
          filter (\<lambda>t. \<not> skip_entity K0 ?c (- 1) True t (ents_g2 ! t)) [1, 0] = [1, 0]"
      by code_simp
  qed code_simp+
  have 2: "fraction (trace (fst (clip_loop K0 X0 ents0 (- 1) True [1, 0] (clip0, [])))) =
        fraction (exact_trace K0 X0 clip0 (ents0 ! 0)) \<and>
      entityNum (trace (fst (clip_loop K0 X0 ents0 (- 1) True [1, 0] (clip0, [])))) =
        s_number (ents0 ! 0) \<and>
      (\<not> g2_wanted K0 clip0 (ents0 ! 0) \<and> \<not> g2_wanted K0 clip0 (ents0 ! 1) \<longrightarrow>
         fst (clip_loop K0 X0 ents0 (- 1) True [1, 0] (clip0, [])) =
           clip0\<lparr>trace := (exact_trace K0 X0 clip0 (ents0 ! 0))
             \<lparr>entityNum := s_number (ents0 ! 0), startsolid := startsolid (trace clip0)\<rparr>\<rparr>)"
  proof (rule C6_nearest_of_two [where a = 0 and b = 1])
    show "filter (\<lambda>t. \<not> skip_entity K0 clip0 (- 1) True t (ents0 ! t)) [1, 0] = [0, 1] \<or>
          filter (\<lambda>t. \<not> skip_entity K0 clip0 (- 1) True t (ents0 ! t)) [1, 0] = [1, 0]"
      by code_simp
  qed code_simp+
  have e: "fraction (exact_trace K0 X_mesh ?c (ents_g2 ! 0)) = 3 / 10"
    "s_number (ents_g2 ! 0) = 0"
    "\<not> g2_wanted K0 clip0 (ents0 ! 0) \<and> \<not> g2_wanted K0 clip0 (ents0 ! 1)"
    "(exact_trace K0 X0 clip0 (ents0 ! 0))
       \<lparr>entityNum := s_number (ents0 ! 0), startsolid := startsolid (trace clip0)\<rparr> =
     (hit_trace (Vec3 30 0 0))\<lparr>entityNum := 0\<rparr>"
    by code_simp+
  from 1 2 e show ?thesis by simp
qed

text \<open>
  The claim as stated fails in two ways. When the world blocks the sweep before both
  candidates (the world trace has fraction 1/5, the candidates 3/10 and 7/10), the result
  is the world trace. When the sweep asks for the Ghoul2 test and the test records no hit
  of the nearer candidate, which has a Ghoul2 model, the old trace is put back, and the
  result has the fraction 7/10 and the number of the farther candidate, in both orders.
\<close>

theorem C6_counterexample:
  "\<not> skip_entity K0 (clip0\<lparr>trace := (trace clip0)\<lparr>fraction := 1 / 5, entityNum := 1022\<rparr>\<rparr>)
        (- 1) True 0 (ents0 ! 0)
   \<and> \<not> skip_entity K0 (clip0\<lparr>trace := (trace clip0)\<lparr>fraction := 1 / 5, entityNum := 1022\<rparr>\<rparr>)
        (- 1) True 1 (ents0 ! 1)
   \<and> exact_trace K0 X0 clip0 (ents0 ! 0) = (hit_trace (Vec3 30 0 0))
   \<and> \<not> allsolid (hit_trace (Vec3 30 0 0)) \<and> \<not> startsolid (hit_trace (Vec3 30 0 0))
   \<and> fraction (hit_trace (Vec3 30 0 0)) = 3 / 10
   \<and> exact_trace K0 X0 clip0 (ents0 ! 1) = hit_trace (Vec3 70 0 0)
   \<and> \<not> allsolid (hit_trace (Vec3 70 0 0)) \<and> \<not> startsolid (hit_trace (Vec3 70 0 0))
   \<and> fraction (hit_trace (Vec3 70 0 0)) = 7 / 10
   \<and> fraction (trace (fst (clip_loop K0 X0 ents0 (- 1) True [0, 1]
        (clip0\<lparr>trace := (trace clip0)\<lparr>fraction := 1 / 5, entityNum := 1022\<rparr>\<rparr>, [])))) = 1 / 5
   \<and> entityNum (trace (fst (clip_loop K0 X0 ents0 (- 1) True [0, 1]
        (clip0\<lparr>trace := (trace clip0)\<lparr>fraction := 1 / 5, entityNum := 1022\<rparr>\<rparr>, []))))
       = ENTITYNUM_WORLD K0
   \<and> snd (clip_loop K0 X0 ents_g2 (- 1) True [0, 1] (clip0\<lparr>traceFlags := 1\<rparr>, [])) = [0, 1]
   \<and> exact_trace K0 X0 (clip0\<lparr>traceFlags := 1\<rparr>) (ents_g2 ! 0) = hit_trace (Vec3 30 0 0)
   \<and> exact_trace K0 X0 (clip0\<lparr>traceFlags := 1\<rparr>) (ents_g2 ! 1) = hit_trace (Vec3 70 0 0)
   \<and> fraction (trace (clip0\<lparr>traceFlags := 1\<rparr>)) = 1
   \<and> fraction (trace (fst (clip_loop K0 X0 ents_g2 (- 1) True [0, 1]
        (clip0\<lparr>traceFlags := 1\<rparr>, [])))) = 7 / 10
   \<and> entityNum (trace (fst (clip_loop K0 X0 ents_g2 (- 1) True [0, 1]
        (clip0\<lparr>traceFlags := 1\<rparr>, [])))) = 1
   \<and> fraction (trace (fst (clip_loop K0 X0 ents_g2 (- 1) True [1, 0]
        (clip0\<lparr>traceFlags := 1\<rparr>, [])))) = 7 / 10
   \<and> entityNum (trace (fst (clip_loop K0 X0 ents_g2 (- 1) True [1, 0]
        (clip0\<lparr>traceFlags := 1\<rparr>, [])))) = 1"
  by code_simp

section \<open>SV\_Trace\<close>

text \<open>
  C5. When the clip to the world has fraction 0, \<^verbatim>\<open>SV_Trace\<close> returns that world trace,
  with \<^verbatim>\<open>ENTITYNUM_WORLD\<close> as the entity. The result does not depend on the sectors, on
  the entities or on the pass entity, it is there even when the area query would not
  return, and no candidate is handed to the exact clip.
\<close>

theorem C5_world_blocked:
  assumes "fraction (CM_BoxTrace X start end'
             (case mins of None \<Rightarrow> vec3_origin | Some m \<Rightarrow> m)
             (case maxs of None \<Rightarrow> vec3_origin | Some m \<Rightarrow> m) contentmask' capsule') = 0"
  shows "SV_Trace K X w start mins maxs end' passEntityNum' contentmask' capsule' traceFlags'
           useLod' =
     Some ((CM_BoxTrace X start end'
             (case mins of None \<Rightarrow> vec3_origin | Some m \<Rightarrow> m)
             (case maxs of None \<Rightarrow> vec3_origin | Some m \<Rightarrow> m) contentmask' capsule')
              \<lparr>entityNum := ENTITYNUM_WORLD K\<rparr>, [])"
  using assms by (simp add: SV_Trace_def Let_def)

theorem C5_world_blocked_witness:
  "SV_Trace K0 X_blocked w_empty (Vec3 0 0 0) None None (Vec3 100 0 0) 5 385 0 0 0 =
     Some (zero_trace\<lparr>entityNum := 1022\<rparr>, [])"
  using C5_world_blocked [of X_blocked "Vec3 0 0 0" "Vec3 100 0 0" None None 385 0 K0 w_empty
      5 0 0]
  by (simp add: X_blocked_def zero_trace_def K0_def)

text \<open>
  C10. A \<^verbatim>\<open>NULL\<close> for \<open>mins\<close> or for \<open>maxs\<close> is the same call as one with the zero
  vector in its place.
\<close>

theorem C10_null_bounds:
  "SV_Trace K X w start None maxs end' passEntityNum' contentmask' capsule' traceFlags' useLod' =
   SV_Trace K X w start (Some vec3_origin) maxs end' passEntityNum' contentmask' capsule'
     traceFlags' useLod' \<and>
   SV_Trace K X w start mins None end' passEntityNum' contentmask' capsule' traceFlags' useLod' =
   SV_Trace K X w start mins (Some vec3_origin) end' passEntityNum' contentmask' capsule'
     traceFlags' useLod'"
  by (simp add: SV_Trace_def)

text \<open>
  The theorem at a sweep through the world \<open>w_linked\<close> that the world model does not
  block.
\<close>

theorem C10_null_bounds_witness:
  "SV_Trace K0 X0 w_linked (Vec3 0 0 0) None None (Vec3 100 0 0) 1023 385 0 0 0 =
   SV_Trace K0 X0 w_linked (Vec3 0 0 0) (Some vec3_origin) (Some vec3_origin) (Vec3 100 0 0)
     1023 385 0 0 0"
  by (rule trans [OF C10_null_bounds [THEN conjunct1] C10_null_bounds [THEN conjunct2]])

end
